theory Spec2Isabelle
  imports Main "HOL-Library.Word"
begin

unbundle bit_operations_syntax

section \<open>The BCM2708 SPI controller driver (drivers/spi/spi-bcm2708.c)\<close>

text \<open>
  The driver runs on the 32-bit ARM core of the BCM2708: \<open>int\<close>, \<open>unsigned\<close>,
  \<open>unsigned long\<close> and \<open>u32\<close> are 32 bits wide.  A signed \<open>int\<close> is a 32-bit word
  compared with the signed orders \<open><s\<close> and \<open>\<le>s\<close>; the kernel is built with wrapping
  signed arithmetic.  A pointer is an address, and address 0 is \<open>NULL\<close>.
\<close>

type_synonym u8 = "8 word"
type_synonym u16 = "16 word"
type_synonym u32 = "32 word"
type_synonym s32 = "32 word"
type_synonym ulong = "32 word"
type_synonym addr = nat

subsection \<open>Register offsets and bit fields of the control and status register\<close>

definition SPI_CS :: nat where "SPI_CS = 0x00"
definition SPI_FIFO :: nat where "SPI_FIFO = 0x04"
definition SPI_CLK :: nat where "SPI_CLK = 0x08"
definition SPI_DLEN :: nat where "SPI_DLEN = 0x0c"
definition SPI_LTOH :: nat where "SPI_LTOH = 0x10"
definition SPI_DC :: nat where "SPI_DC = 0x14"

definition SPI_CS_LEN_LONG :: u32 where "SPI_CS_LEN_LONG = 0x02000000"
definition SPI_CS_DMA_LEN :: u32 where "SPI_CS_DMA_LEN = 0x01000000"
definition SPI_CS_CSPOL2 :: u32 where "SPI_CS_CSPOL2 = 0x00800000"
definition SPI_CS_CSPOL1 :: u32 where "SPI_CS_CSPOL1 = 0x00400000"
definition SPI_CS_CSPOL0 :: u32 where "SPI_CS_CSPOL0 = 0x00200000"
definition SPI_CS_RXF :: u32 where "SPI_CS_RXF = 0x00100000"
definition SPI_CS_RXR :: u32 where "SPI_CS_RXR = 0x00080000"
definition SPI_CS_TXD :: u32 where "SPI_CS_TXD = 0x00040000"
definition SPI_CS_RXD :: u32 where "SPI_CS_RXD = 0x00020000"
definition SPI_CS_DONE :: u32 where "SPI_CS_DONE = 0x00010000"
definition SPI_CS_LEN :: u32 where "SPI_CS_LEN = 0x00002000"
definition SPI_CS_REN :: u32 where "SPI_CS_REN = 0x00001000"
definition SPI_CS_ADCS :: u32 where "SPI_CS_ADCS = 0x00000800"
definition SPI_CS_INTR :: u32 where "SPI_CS_INTR = 0x00000400"
definition SPI_CS_INTD :: u32 where "SPI_CS_INTD = 0x00000200"
definition SPI_CS_DMAEN :: u32 where "SPI_CS_DMAEN = 0x00000100"
definition SPI_CS_TA :: u32 where "SPI_CS_TA = 0x00000080"
definition SPI_CS_CSPOL :: u32 where "SPI_CS_CSPOL = 0x00000040"
definition SPI_CS_CLEAR_RX :: u32 where "SPI_CS_CLEAR_RX = 0x00000020"
definition SPI_CS_CLEAR_TX :: u32 where "SPI_CS_CLEAR_TX = 0x00000010"
definition SPI_CS_CPOL :: u32 where "SPI_CS_CPOL = 0x00000008"
definition SPI_CS_CPHA :: u32 where "SPI_CS_CPHA = 0x00000004"
definition SPI_CS_CS_10 :: u32 where "SPI_CS_CS_10 = 0x00000002"
definition SPI_CS_CS_01 :: u32 where "SPI_CS_CS_01 = 0x00000001"

lemmas cs_bits =
  SPI_CS_CSPOL0_def SPI_CS_RXR_def SPI_CS_RXD_def SPI_CS_DONE_def SPI_CS_LEN_def
  SPI_CS_REN_def SPI_CS_INTR_def SPI_CS_INTD_def SPI_CS_TA_def SPI_CS_CSPOL_def
  SPI_CS_CLEAR_RX_def SPI_CS_CLEAR_TX_def SPI_CS_CPOL_def SPI_CS_CPHA_def
  SPI_CS_CS_10_def SPI_CS_CS_01_def

text \<open>
  Modelled from the spec: the mode flags of a peer are declared in linux/spi/spi.h, which
  is not among the sources.  The spec names four independent mode bits: clock phase, clock
  polarity, active-high chip-select and "no physical chip-select".  They carry the values
  of that header.
\<close>

definition SPI_CPHA :: u8 where "SPI_CPHA = 0x01"
definition SPI_CPOL :: u8 where "SPI_CPOL = 0x02"
definition SPI_CS_HIGH :: u8 where "SPI_CS_HIGH = 0x04"
definition SPI_NO_CS :: u8 where "SPI_NO_CS = 0x40"

lemmas mode_bits = SPI_CPHA_def SPI_CPOL_def SPI_CS_HIGH_def SPI_NO_CS_def

subsection \<open>Errors\<close>

text \<open>
  Modelled from the spec: the errno constants are declared in headers that are not among
  the sources.  Every \<open>return -E...\<close> of the driver is one constructor, named after the
  error kinds of the spec (section 7); \<open>errno\<close> gives the C value the caller sees, with
  the Linux values of \<open>EINVAL\<close>, \<open>ESHUTDOWN\<close>, \<open>ETIMEDOUT\<close>, \<open>ENOMEM\<close> and
  \<open>EINPROGRESS\<close>; several kinds share \<open>-EINVAL\<close>.  An \<open>int\<close> status is an
  \<open>error option\<close>: \<open>None\<close> is 0.
\<close>

datatype error =
    EmptyMessage
  | MissingBuffer
  | ShuttingDown
  | FrequencyTooLow
  | InvalidWordWidth
  | InvalidChipselect
  | Timeout
  | NoMemory
  | InProgress

fun errno :: "error \<Rightarrow> int" where
  "errno EmptyMessage = - 22"
| "errno MissingBuffer = - 22"
| "errno FrequencyTooLow = - 22"
| "errno InvalidWordWidth = - 22"
| "errno InvalidChipselect = - 22"
| "errno ShuttingDown = - 108"
| "errno Timeout = - 110"
| "errno NoMemory = - 12"
| "errno InProgress = - 115"

subsection \<open>The configuration resolver: \<open>bcm2708_setup_state\<close>\<close>

record bcm2708_spi_state =
  cs :: u32
  cdiv :: u16

text \<open>
  Modelled from the spec: \<open>DIV_ROUND_UP\<close> (linux/kernel.h) and \<open>roundup_pow_of_two\<close>
  (linux/log2.h) are macros of headers that are not among the sources.  The spec describes
  them as "round-up(bus_hz / requested_hz)" and "to the next power of two": the quotient
  rounded up, and the least power of two that is not below the argument.
\<close>

definition DIV_ROUND_UP :: "nat \<Rightarrow> nat \<Rightarrow> nat" where
  "DIV_ROUND_UP n d = (n + d - 1) div d"

function pow2_from :: "nat \<Rightarrow> nat \<Rightarrow> nat" where
  "pow2_from p n = (if n \<le> p \<or> p = 0 then p else pow2_from (2 * p) n)"
  by pat_completeness auto
termination
  by (relation "measure (\<lambda>(p, n). n - p)") auto

declare pow2_from.simps [simp del]

definition roundup_pow_of_two :: "nat \<Rightarrow> nat" where
  "roundup_pow_of_two n = pow2_from 1 n"

text \<open>
  Lines 231-253: the clock divisor.  \<open>bus_hz\<close> is what \<open>clk_get_rate(bs->clk)\<close>
  returned.  The local \<open>cdiv\<close> is an \<open>int\<close>: each assignment converts to 32 bits, and
  the comparison with 65536 is signed.
\<close>

definition setup_cdiv :: "ulong \<Rightarrow> u32 \<Rightarrow> error + s32" where
  "setup_cdiv bus_hz hz =
     (if bus_hz \<le> hz then Inr 2
      else if hz \<noteq> 0 then
        (let cdiv1 = (word_of_int (int (DIV_ROUND_UP (unat bus_hz) (unat hz))) :: s32);
             cdiv2 = (word_of_int (int (roundup_pow_of_two (unat cdiv1))) :: s32)
         in if 65536 <s cdiv2 then Inl FrequencyTooLow
            else if cdiv2 = 65536 then Inr 0
            else if cdiv2 = 1 then Inr 2
            else Inr cdiv2)
      else Inr 0)"

text \<open>Lines 255-266: the word width selects the initial control word.\<close>

definition setup_bpw :: "u8 \<Rightarrow> error + u32" where
  "setup_bpw bpw =
     (if bpw = 8 then Inr 0
      else if bpw = 9 then Inr (0 OR SPI_CS_LEN)
      else Inl InvalidWordWidth)"

text \<open>
  Lines 268-282: clock polarity and phase, and the chip-select encoding.  The shift
  \<open>SPI_CS_CSPOL0 << csel\<close> is taken in 32 bits: what leaves the word is dropped.
\<close>

definition setup_mode :: "u32 \<Rightarrow> u8 \<Rightarrow> u8 \<Rightarrow> u32" where
  "setup_mode cs0 csel mode =
     (let cs1 = (if mode AND SPI_CPOL \<noteq> 0 then cs0 OR SPI_CS_CPOL else cs0);
          cs2 = (if mode AND SPI_CPHA \<noteq> 0 then cs1 OR SPI_CS_CPHA else cs1)
      in if mode AND SPI_NO_CS = 0 then
           (let cs3 = (if mode AND SPI_CS_HIGH \<noteq> 0
                       then (cs2 OR SPI_CS_CSPOL) OR push_bit (unat csel) SPI_CS_CSPOL0
                       else cs2)
            in cs3 OR ucast csel)
         else cs2 OR (SPI_CS_CS_10 OR SPI_CS_CS_01))"

text \<open>
  The whole function.  \<open>Inl e\<close> is an early \<open>return -EINVAL\<close>; \<open>Inr st\<close> is
  \<open>return 0\<close>, with \<open>st\<close> what is stored through \<open>state\<close> when the caller passed a
  non-null pointer (the store \<open>state->cdiv = cdiv\<close> truncates to 16 bits).
\<close>

text \<open>
  The spec reads a stored divisor of 0 as 65536; \<open>spi_clock\<close> is the bit clock the
  engine then produces.  The second definition is the divisor rule in the words of the
  spec (section 4.1), on natural numbers.
\<close>

definition spi_clock :: "nat \<Rightarrow> u16 \<Rightarrow> nat" where
  "spi_clock bus_hz d = bus_hz div (if d = 0 then 65536 else unat d)"

definition spec_divisor :: "nat \<Rightarrow> nat \<Rightarrow> error + nat" where
  "spec_divisor bus_hz requested_hz =
     (if requested_hz = 0 then Inr 0
      else if bus_hz \<le> requested_hz then Inr 2
      else (let d = roundup_pow_of_two (DIV_ROUND_UP bus_hz requested_hz)
            in if 65536 < d then Inl FrequencyTooLow
               else if d = 65536 then Inr 0
               else if d = 1 then Inr 2
               else Inr d))"

definition bcm2708_setup_state ::
  "ulong \<Rightarrow> u32 \<Rightarrow> u8 \<Rightarrow> u8 \<Rightarrow> u8 \<Rightarrow> error + bcm2708_spi_state" where
  "bcm2708_setup_state bus_hz hz csel mode bpw =
     (case setup_cdiv bus_hz hz of
        Inl e \<Rightarrow> Inl e
      | Inr cdiv' \<Rightarrow>
          (case setup_bpw bpw of
             Inl e \<Rightarrow> Inl e
           | Inr cs0 \<Rightarrow> Inr \<lparr> cs = setup_mode cs0 csel mode, cdiv = ucast cdiv' \<rparr>))"

subsection \<open>Transfers, messages and peers\<close>

text \<open>
  Modelled from the spec: \<open>struct spi_transfer\<close>, \<open>struct spi_message\<close> and
  \<open>struct spi_device\<close> are declared in linux/spi/spi.h, which is not among the sources.
  The records hold the fields the driver reads and writes, as the data model of the spec
  describes them (section 3).  The fields of a transfer carry the prefix \<open>x_\<close>, because
  the controller has fields of the same names.  A message is identified by its
  \<open>cb_context\<close>, the \<open>context\<close> argument of its completion callback.
\<close>

record spi_transfer =
  x_tx_buf :: addr
  x_rx_buf :: addr
  x_len :: u32
  x_cs_change :: bool
  x_bits_per_word :: u8
  x_delay_usecs :: u16
  x_speed_hz :: u32

record spi_device =
  max_speed_hz :: u32
  chip_select :: u8
  mode :: u8
  bits_per_word :: u8
  controller_state :: "bcm2708_spi_state option"

record spi_message =
  transfers :: "spi_transfer list"
  spi :: spi_device
  cb_context :: nat
  actual_length :: u32
  status :: "error option"

text \<open>Line 511 of \<open>bcm2708_spi_probe\<close>: \<open>master->num_chipselect = 3\<close>.\<close>

definition num_chipselect :: u16 where
  "num_chipselect = 3"

subsection \<open>The controller and its surroundings\<close>

text \<open>
  The worker leaves a trace: one event when \<open>bcm2708_process_transfer\<close> returns, with
  the message's context, the transfer and the returned status, and one event when the
  completion callback of a message is called, with the message as the caller gets it back.
\<close>

datatype event =
    Processed nat spi_transfer "error option"
  | Callback spi_message

text \<open>
  \<open>struct bcm2708_spi\<close> (lines 77-92), followed by what the driver reaches through it.
  The field \<open>done\<close> is \<open>done_cnt\<close>: the number of completions raised and not yet
  consumed.  \<open>clk\<close> is the rate \<open>clk_get_rate\<close> reports.

  The device behind \<open>base\<close> is an input: \<open>rd_in r k\<close> is the value the \<open>k\<close>-th read
  of register \<open>r\<close> returns, \<open>rd_cnt r\<close> counts the reads made so far, and \<open>wr_log\<close>
  lists the register writes in program order.  \<open>mem\<close> is the memory the buffer pointers
  point into.  \<open>irqs k ms\<close> is the number of interrupts the device raises within the first
  \<open>ms\<close> milliseconds of the \<open>k\<close>-th wait of the worker, and \<open>waits\<close> counts the waits.
  \<open>work_pending\<close> is set by \<open>queue_work\<close>.
\<close>

record bcm2708_spi =
  stopping :: bool
  queue :: "spi_message list"
  done_cnt :: nat
  tx_buf :: addr
  rx_buf :: addr
  len :: s32
  clk :: ulong
  rd_in :: "nat \<Rightarrow> nat \<Rightarrow> u32"
  rd_cnt :: "nat \<Rightarrow> nat"
  wr_log :: "(nat \<times> u32) list"
  mem :: "addr \<Rightarrow> u8"
  irqs :: "nat \<Rightarrow> nat \<Rightarrow> nat"
  waits :: nat
  work_pending :: bool
  events :: "event list"

definition SPI_TIMEOUT_MS :: nat where
  "SPI_TIMEOUT_MS = 150"

text \<open>Lines 125-133: register access.\<close>

definition bcm2708_rd :: "bcm2708_spi \<Rightarrow> nat \<Rightarrow> u32 \<times> bcm2708_spi" where
  "bcm2708_rd bs reg =
     (rd_in bs reg (rd_cnt bs reg), bs\<lparr> rd_cnt := (rd_cnt bs)(reg := Suc (rd_cnt bs reg)) \<rparr>)"

definition bcm2708_wr :: "bcm2708_spi \<Rightarrow> nat \<Rightarrow> u32 \<Rightarrow> bcm2708_spi" where
  "bcm2708_wr bs reg val = bs\<lparr> wr_log := wr_log bs @ [(reg, val)] \<rparr>"

subsection \<open>The transfer pump\<close>

text \<open>
  Lines 135-144.  \<open>while (len--)\<close> on a wrapping 32-bit \<open>int\<close> runs until the counter
  reaches 0.  One pass reads the FIFO register, keeps the low byte and stores it through
  \<open>rx_buf\<close> when that is not null.
\<close>

definition rd_fifo_byte :: "bcm2708_spi \<Rightarrow> bcm2708_spi" where
  "rd_fifo_byte bs =
     (let byte = (ucast (fst (bcm2708_rd bs SPI_FIFO)) :: u8);
          bs1 = snd (bcm2708_rd bs SPI_FIFO)
      in if rx_buf bs1 \<noteq> 0
         then bs1\<lparr> mem := (mem bs1)(rx_buf bs1 := byte), rx_buf := rx_buf bs1 + 1 \<rparr>
         else bs1)"

function bcm2708_rd_fifo :: "bcm2708_spi \<Rightarrow> s32 \<Rightarrow> bcm2708_spi" where
  "bcm2708_rd_fifo bs n = (if n = 0 then bs else bcm2708_rd_fifo (rd_fifo_byte bs) (n - 1))"
  by pat_completeness auto
termination
  by (relation "measure (\<lambda>(bs, n). unat n)") (auto simp: measure_unat)

declare bcm2708_rd_fifo.simps [simp del]

text \<open>
  Lines 174-178: the byte loop of \<open>bcm2708_wr_fifo\<close>.  One pass writes the byte under
  \<open>tx_buf\<close>, or 0 when \<open>tx_buf\<close> is null, to the FIFO register and decrements
  \<open>bs->len\<close>.
\<close>

definition wr_fifo_byte :: "bcm2708_spi \<Rightarrow> bcm2708_spi" where
  "wr_fifo_byte bs =
     (let byte = (if tx_buf bs \<noteq> 0 then mem bs (tx_buf bs) else 0);
          bs1 = (if tx_buf bs \<noteq> 0 then bs\<lparr> tx_buf := tx_buf bs + 1 \<rparr> else bs);
          bs2 = bcm2708_wr bs1 SPI_FIFO (ucast byte)
      in bs2\<lparr> len := len bs2 - 1 \<rparr>)"

function wr_fifo_bytes :: "bcm2708_spi \<Rightarrow> s32 \<Rightarrow> bcm2708_spi" where
  "wr_fifo_bytes bs n = (if n = 0 then bs else wr_fifo_bytes (wr_fifo_byte bs) (n - 1))"
  by pat_completeness auto
termination
  by (relation "measure (\<lambda>(bs, n). unat n)") (auto simp: measure_unat)

declare wr_fifo_bytes.simps [simp del]

text \<open>
  Lines 161-170: the loop of the 9-bit (LoSSI) mode.  One pass reads a 16-bit value under
  \<open>tx_buf\<close> (the core is little-endian), or takes 0, writes it to the FIFO register and
  takes 2 off \<open>bs->len\<close> and off the counter.  The loop ends when the counter is 0; from
  an odd counter it would never get there, so the loop is a partial function.
\<close>

definition wr_fifo_word :: "bcm2708_spi \<Rightarrow> bcm2708_spi" where
  "wr_fifo_word bs =
     (let val = (if tx_buf bs \<noteq> 0
                 then (ucast (mem bs (tx_buf bs)) :: u16) OR
                      push_bit 8 (ucast (mem bs (tx_buf bs + 1)) :: u16)
                 else 0);
          bs1 = (if tx_buf bs \<noteq> 0 then bs\<lparr> tx_buf := tx_buf bs + 2 \<rparr> else bs);
          bs2 = bcm2708_wr bs1 SPI_FIFO (ucast val)
      in bs2\<lparr> len := len bs2 - 2 \<rparr>)"

partial_function (option) wr_fifo_words :: "bcm2708_spi \<Rightarrow> s32 \<Rightarrow> bcm2708_spi option" where
  "wr_fifo_words bs n = (if n = 0 then Some bs else wr_fifo_words (wr_fifo_word bs) (n - 2))"

text \<open>
  Lines 146-179.  The request is clamped to \<open>bs->len\<close> by a signed comparison.  In C,
  \<open>len % 2\<close> is not 0 exactly when \<open>len\<close> is odd.
\<close>

definition bcm2708_wr_fifo :: "bcm2708_spi \<Rightarrow> s32 \<Rightarrow> bcm2708_spi option" where
  "bcm2708_wr_fifo bs n =
     (let n' = (if len bs <s n then len bs else n);
          c = fst (bcm2708_rd bs SPI_CS);
          bs1 = snd (bcm2708_rd bs SPI_CS)
      in if c AND SPI_CS_LEN \<noteq> 0 then
           (if odd (sint n') then Some (bs1\<lparr> len := 0 \<rparr>)
            else wr_fifo_words bs1 n')
         else Some (wr_fifo_bytes bs1 n'))"

text \<open>
  Lines 200-204: draining the receive FIFO.  The loop runs as long as the status word last
  read has the \<open>RXD\<close> bit; the device decides when that is, so the loop is a partial
  function.
\<close>

partial_function (option) drain_rx :: "bcm2708_spi \<Rightarrow> u32 \<Rightarrow> bcm2708_spi option" where
  "drain_rx bs c =
     (if c AND SPI_CS_RXD \<noteq> 0
      then drain_rx (snd (bcm2708_rd (bcm2708_rd_fifo bs 1) SPI_CS))
                    (fst (bcm2708_rd (bcm2708_rd_fifo bs 1) SPI_CS))
      else Some bs)"

text \<open>\<open>complete(&bs->done)\<close>.\<close>

definition complete :: "bcm2708_spi \<Rightarrow> bcm2708_spi" where
  "complete bs = bs\<lparr> done_cnt := Suc (done_cnt bs) \<rparr>"

text \<open>
  Lines 181-220: the interrupt handler.  It runs under the controller's lock from its first
  statement to its last, so one call is one step of the model.  \<open>None\<close> means that the
  handler does not return.
\<close>

definition bcm2708_spi_interrupt :: "bcm2708_spi \<Rightarrow> bcm2708_spi option" where
  "bcm2708_spi_interrupt bs =
     (let c = fst (bcm2708_rd bs SPI_CS);
          bs1 = snd (bcm2708_rd bs SPI_CS)
      in if c AND SPI_CS_DONE \<noteq> 0 then
           (if len bs1 \<noteq> 0 then bcm2708_wr_fifo bs1 16
            else
              (let c' = c AND NOT (SPI_CS_INTR OR SPI_CS_INTD);
                   bs2 = bcm2708_wr bs1 SPI_CS c'
               in case drain_rx bs2 c' of
                    None \<Rightarrow> None
                  | Some bs3 \<Rightarrow> Some (complete bs3)))
         else if c AND SPI_CS_RXR \<noteq> 0 then bcm2708_wr_fifo (bcm2708_rd_fifo bs1 12) 12
         else Some bs1)"

subsection \<open>The worker\<close>

text \<open>
  Modelled from the spec: \<open>wait_for_completion_timeout\<close> and the delivery of interrupts
  are kernel services that are not among the sources.  The spec has the worker block "on
  the completion signal with a fixed timeout", the interrupt handler called once per
  hardware interrupt while the worker waits, and the wait fail when "the timeout elapses
  before completion is raised".  The wait returns \<open>True\<close> as soon as a completion is
  pending, and consumes it; otherwise the next of the \<open>n\<close> interrupts that the device
  raises within the timeout runs the handler; with no interrupt left it returns \<open>False\<close>.
\<close>

fun wait_for_completion_timeout :: "nat \<Rightarrow> bcm2708_spi \<Rightarrow> (bool \<times> bcm2708_spi) option" where
  "wait_for_completion_timeout 0 bs =
     (if 0 < done_cnt bs then Some (True, bs\<lparr> done_cnt := done_cnt bs - 1 \<rparr>)
      else Some (False, bs))"
| "wait_for_completion_timeout (Suc n) bs =
     (if 0 < done_cnt bs then Some (True, bs\<lparr> done_cnt := done_cnt bs - 1 \<rparr>)
      else case bcm2708_spi_interrupt bs of
             None \<Rightarrow> None
           | Some bs' \<Rightarrow> wait_for_completion_timeout n bs')"

text \<open>
  Lines 307-319: the configuration of a transfer.  With an override it is resolved anew;
  otherwise it is the peer's cached \<open>controller_state\<close>.  A null \<open>controller_state\<close>
  is dereferenced at line 326, which the kernel does not survive: the result is \<open>None\<close>.
\<close>

definition xfer_state ::
  "ulong \<Rightarrow> spi_device \<Rightarrow> spi_transfer \<Rightarrow> (error + bcm2708_spi_state) option" where
  "xfer_state bus_hz dev xfer =
     (if x_bits_per_word xfer \<noteq> 0 \<or> x_speed_hz xfer \<noteq> 0
      then Some (bcm2708_setup_state bus_hz
                   (if x_speed_hz xfer \<noteq> 0 then x_speed_hz xfer else max_speed_hz dev)
                   (chip_select dev) (mode dev)
                   (if x_bits_per_word xfer \<noteq> 0 then x_bits_per_word xfer
                    else bits_per_word dev))
      else map_option Inr (controller_state dev))"

text \<open>Lines 321-329: arming.\<close>

definition arm :: "bcm2708_spi \<Rightarrow> spi_transfer \<Rightarrow> bcm2708_spi_state \<Rightarrow> bcm2708_spi" where
  "arm bs xfer stp =
     (let bs1 = bs\<lparr> done_cnt := 0, tx_buf := x_tx_buf xfer, rx_buf := x_rx_buf xfer,
                   len := x_len xfer \<rparr>;
          c = cs stp OR SPI_CS_INTR OR SPI_CS_INTD OR SPI_CS_TA;
          bs2 = bcm2708_wr bs1 SPI_CLK (ucast (cdiv stp))
      in bcm2708_wr bs2 SPI_CS c)"

text \<open>
  Lines 296-350.  \<open>is_last\<close> is \<open>list_is_last(&xfer->transfer_list, &msg->transfers)\<close>.
  The result is the returned status, the controller and the message; \<open>None\<close> means that
  the function does not return.  \<open>udelay\<close> changes nothing that the model holds.
\<close>

definition bcm2708_process_transfer ::
  "bcm2708_spi \<Rightarrow> spi_message \<Rightarrow> spi_transfer \<Rightarrow> bool \<Rightarrow>
   (error option \<times> bcm2708_spi \<times> spi_message) option" where
  "bcm2708_process_transfer bs msg xfer is_last =
     (if stopping bs then Some (Some ShuttingDown, bs, msg)
      else case xfer_state (clk bs) (spi msg) xfer of
        None \<Rightarrow> None
      | Some (Inl e) \<Rightarrow> Some (Some e, bs, msg)
      | Some (Inr stp) \<Rightarrow>
          (let bs1 = arm bs xfer stp;
               n = irqs bs1 (waits bs1) SPI_TIMEOUT_MS;
               bs2 = bs1\<lparr> waits := Suc (waits bs1) \<rparr>
           in case wait_for_completion_timeout n bs2 of
                None \<Rightarrow> None
              | Some (False, bs3) \<Rightarrow> Some (Some Timeout, bs3, msg)
              | Some (True, bs3) \<Rightarrow>
                  (let bs4 = (if is_last \<or> x_cs_change xfer
                              then bcm2708_wr bs3 SPI_CS (cs stp) else bs3)
                   in Some (None, bs4,
                        msg\<lparr> actual_length :=
                               actual_length msg + (x_len xfer - len bs4) \<rparr>))))"

text \<open>
  Lines 366-370: the loop over the transfers of one message.  \<open>status\<close> is the local
  variable of \<open>bcm2708_work\<close>, which the loop assigns in each pass.
\<close>

fun xfer_loop ::
  "bcm2708_spi \<Rightarrow> spi_message \<Rightarrow> spi_transfer list \<Rightarrow> error option \<Rightarrow>
   (error option \<times> bcm2708_spi \<times> spi_message) option" where
  "xfer_loop bs msg [] st = Some (st, bs, msg)"
| "xfer_loop bs msg (xfer # xs) st =
     (case bcm2708_process_transfer bs msg xfer (xs = []) of
        None \<Rightarrow> None
      | Some (st', bs', msg') \<Rightarrow>
          (let bs'' = bs'\<lparr> events := events bs' @ [Processed (cb_context msg) xfer st'] \<rparr>
           in if st' \<noteq> None then Some (st', bs'', msg')
              else xfer_loop bs'' msg' xs st'))"

text \<open>
  Lines 366-373: the transfers of one message, then its final status and its completion
  callback.
\<close>

definition run_message ::
  "bcm2708_spi \<Rightarrow> spi_message \<Rightarrow> spi_transfer list \<Rightarrow> error option \<Rightarrow>
   (error option \<times> bcm2708_spi) option" where
  "run_message bs msg xs st =
     (case xfer_loop bs msg xs st of
        None \<Rightarrow> None
      | Some (st', bs', msg') \<Rightarrow>
          Some (st', bs'\<lparr> events := events bs' @ [Callback (msg'\<lparr> status := st' \<rparr>)] \<rparr>))"

text \<open>
  Lines 352-378: the worker.  \<open>status\<close> is declared and set to 0 once, before the loop
  over the queue.  Each pass takes the head of the queue.
\<close>

partial_function (option) work_loop :: "bcm2708_spi \<Rightarrow> error option \<Rightarrow> bcm2708_spi option" where
  "work_loop bs st =
     (case queue bs of
        [] \<Rightarrow> Some bs
      | msg # q \<Rightarrow>
          (case run_message (bs\<lparr> queue := q \<rparr>) msg (transfers msg) st of
             None \<Rightarrow> None
           | Some (st', bs') \<Rightarrow> work_loop bs' st'))"

definition bcm2708_work :: "bcm2708_spi \<Rightarrow> bcm2708_spi option" where
  "bcm2708_work bs = work_loop bs None"

subsection \<open>Peer setup, submission and shutdown\<close>

text \<open>
  Lines 380-421.  \<open>alloc_ok\<close> tells whether \<open>kzalloc\<close> returns memory.  The result is
  the returned status and the peer, whose \<open>controller_state\<close> the function sets.
\<close>

definition bcm2708_spi_setup ::
  "bcm2708_spi \<Rightarrow> bool \<Rightarrow> spi_device \<Rightarrow> error option \<times> spi_device" where
  "bcm2708_spi_setup bs alloc_ok dev =
     (if stopping bs then (Some ShuttingDown, dev)
      else if mode dev AND SPI_NO_CS = 0 \<and> unat num_chipselect < unat (chip_select dev)
      then (Some InvalidChipselect, dev)
      else if controller_state dev = None \<and> \<not> alloc_ok then (Some NoMemory, dev)
      else case bcm2708_setup_state (clk bs) (max_speed_hz dev) (chip_select dev) (mode dev)
                  (bits_per_word dev) of
             Inl e \<Rightarrow> (Some e, dev\<lparr> controller_state := None \<rparr>)
           | Inr st \<Rightarrow> (None, dev\<lparr> controller_state := Some st \<rparr>))"

text \<open>Lines 436-452: the checks of \<open>bcm2708_spi_transfer\<close> on each transfer.\<close>

fun check_transfers :: "ulong \<Rightarrow> spi_device \<Rightarrow> spi_transfer list \<Rightarrow> error option" where
  "check_transfers bus_hz dev [] = None"
| "check_transfers bus_hz dev (xfer # xs) =
     (if \<not> (x_tx_buf xfer \<noteq> 0 \<or> x_rx_buf xfer \<noteq> 0) \<and> x_len xfer \<noteq> 0
      then Some MissingBuffer
      else if x_bits_per_word xfer = 0 \<or> x_speed_hz xfer \<noteq> 0
      then check_transfers bus_hz dev xs
      else case bcm2708_setup_state bus_hz
                  (if x_speed_hz xfer \<noteq> 0 then x_speed_hz xfer else max_speed_hz dev)
                  (chip_select dev) (mode dev)
                  (if x_bits_per_word xfer \<noteq> 0 then x_bits_per_word xfer
                   else bits_per_word dev) of
             Inl e \<Rightarrow> Some e
           | Inr st \<Rightarrow> check_transfers bus_hz dev xs)"

text \<open>Lines 423-463: submission of a message.\<close>

definition bcm2708_spi_transfer ::
  "bcm2708_spi \<Rightarrow> spi_device \<Rightarrow> spi_message \<Rightarrow> error option \<times> bcm2708_spi" where
  "bcm2708_spi_transfer bs dev msg =
     (if transfers msg = [] then (Some EmptyMessage, bs)
      else if stopping bs then (Some ShuttingDown, bs)
      else case check_transfers (clk bs) dev (transfers msg) of
             Some e \<Rightarrow> (Some e, bs)
           | None \<Rightarrow>
               (None, bs\<lparr> queue := queue bs @ [msg\<lparr> status := Some InProgress,
                                                     actual_length := 0 \<rparr>],
                          work_pending := True \<rparr>))"

text \<open>Lines 583-586: the locked section of \<open>bcm2708_spi_remove\<close>.\<close>

definition bcm2708_spi_remove :: "bcm2708_spi \<Rightarrow> bcm2708_spi" where
  "bcm2708_spi_remove bs =
     bcm2708_wr (bs\<lparr> stopping := True \<rparr>) SPI_CS (SPI_CS_CLEAR_RX OR SPI_CS_CLEAR_TX)"

subsection \<open>The pump in the words of the spec\<close>

text \<open>
  The steps of the transfer pump as section 4.3 of the spec describes them, as closed
  forms on the state, to be compared with the loops above.

  \<open>status_word bs j\<close> is the \<open>j\<close>-th status word the device returns from now on,
  \<open>rx_byte bs i\<close> the \<open>i\<close>-th byte the receive FIFO returns from now on, and
  \<open>count_reads r k\<close> records \<open>k\<close> reads of register \<open>r\<close>.
\<close>

definition status_word :: "bcm2708_spi \<Rightarrow> nat \<Rightarrow> u32" where
  "status_word bs j = rd_in bs SPI_CS (rd_cnt bs SPI_CS + j)"

definition rx_byte :: "bcm2708_spi \<Rightarrow> nat \<Rightarrow> u8" where
  "rx_byte bs i = ucast (rd_in bs SPI_FIFO (rd_cnt bs SPI_FIFO + i))"

definition count_reads :: "nat \<Rightarrow> nat \<Rightarrow> bcm2708_spi \<Rightarrow> bcm2708_spi" where
  "count_reads r k bs = bs\<lparr> rd_cnt := (rd_cnt bs)(r := rd_cnt bs r + k) \<rparr>"

text \<open>
  "Drain \<open>k\<close> bytes from the receive FIFO into the rx cursor (or discard)": the bytes
  land at the addresses from \<open>rx_buf\<close> on and the cursor moves behind them; without an rx
  buffer only the reads are counted.
\<close>

definition pull_bytes :: "nat \<Rightarrow> bcm2708_spi \<Rightarrow> bcm2708_spi" where
  "pull_bytes k bs =
     bs\<lparr> rd_cnt := (rd_cnt bs)(SPI_FIFO := rd_cnt bs SPI_FIFO + k),
         rx_buf := (if rx_buf bs = 0 then 0 else rx_buf bs + k),
         mem := (\<lambda>a. if rx_buf bs \<noteq> 0 \<and> rx_buf bs \<le> a \<and> a < rx_buf bs + k
                      then rx_byte bs (a - rx_buf bs) else mem bs a) \<rparr>"

text \<open>
  "Push \<open>k\<close> bytes from the tx cursor into the hardware FIFO (zero if no tx buffer is
  present); decrement remaining length accordingly": one FIFO write per byte.
\<close>

definition tx_byte :: "bcm2708_spi \<Rightarrow> nat \<Rightarrow> u8" where
  "tx_byte bs i = (if tx_buf bs = 0 then 0 else mem bs (tx_buf bs + i))"

definition push_bytes :: "nat \<Rightarrow> bcm2708_spi \<Rightarrow> bcm2708_spi" where
  "push_bytes k bs =
     bs\<lparr> wr_log := wr_log bs @ map (\<lambda>i. (SPI_FIFO, ucast (tx_byte bs i))) [0..<k],
         tx_buf := (if tx_buf bs = 0 then 0 else tx_buf bs + k),
         len := len bs - of_nat k \<rparr>"

text \<open>
  Wide mode "moves 2-byte units instead of 1-byte units": one FIFO write per pair of
  bytes, the byte at the lower address in the low half.
\<close>

definition tx_word :: "bcm2708_spi \<Rightarrow> nat \<Rightarrow> u16" where
  "tx_word bs j =
     (if tx_buf bs = 0 then 0
      else ucast (mem bs (tx_buf bs + 2 * j)) OR
           push_bit 8 (ucast (mem bs (tx_buf bs + 2 * j + 1))))"

definition push_words :: "nat \<Rightarrow> bcm2708_spi \<Rightarrow> bcm2708_spi" where
  "push_words k bs =
     bs\<lparr> wr_log := wr_log bs @ map (\<lambda>j. (SPI_FIFO, ucast (tx_word bs j))) [0..<k div 2],
         tx_buf := (if tx_buf bs = 0 then 0 else tx_buf bs + k),
         len := len bs - of_nat k \<rparr>"

text \<open>
  The push of the pump: after one read of the status register, up to \<open>n\<close> bytes, clamped
  to the remaining length, go to the FIFO.  In wide mode they go in 2-byte units, and an
  odd count aborts the push: the remaining length becomes 0 and nothing is written.
\<close>

definition pump_push :: "nat \<Rightarrow> bcm2708_spi \<Rightarrow> bcm2708_spi" where
  "pump_push n bs =
     (let k = min n (unat (len bs));
          bs1 = count_reads SPI_CS 1 bs
      in if status_word bs 0 AND SPI_CS_LEN = 0 then push_bytes k bs1
         else if even k then push_words k bs1
         else bs1\<lparr> len := 0 \<rparr>)"

text \<open>
  The end of a transfer: the interrupt enables are cleared in the status word just read
  and written back, \<open>k\<close> bytes are drained with one more status read after each, and the
  completion is raised.
\<close>

definition pump_finish :: "nat \<Rightarrow> bcm2708_spi \<Rightarrow> bcm2708_spi" where
  "pump_finish k bs =
     complete (count_reads SPI_CS k (pull_bytes k
       (bcm2708_wr (count_reads SPI_CS 1 bs) SPI_CS
          (status_word bs 0 AND NOT (SPI_CS_INTR OR SPI_CS_INTD)))))"

subsection \<open>The worker in the words of the spec\<close>

text \<open>
  The trace a run of the worker must leave for the messages of the queue, in their order.
  For one message: its transfers are processed in list order, each only after the ones
  before it succeeded; then the callback is called once, after every transfer was
  processed or one failed, with the status of the last transfer processed.
  \<open>msg_events m xs st evs\<close> reads the events of message \<open>m\<close> off \<open>evs\<close>, where
  \<open>xs\<close> are the transfers not yet processed and \<open>st\<close> is the status of the last one
  processed, and returns the events that follow.
\<close>

fun msg_events ::
  "spi_message \<Rightarrow> spi_transfer list \<Rightarrow> error option \<Rightarrow> event list \<Rightarrow> event list option" where
  "msg_events m xs st [] = None"
| "msg_events m xs st (Processed c x r # evs) =
     (case xs of
        [] \<Rightarrow> None
      | y # ys \<Rightarrow>
          if st = None \<and> c = cb_context m \<and> x = y then msg_events m ys r evs else None)"
| "msg_events m xs st (Callback m' # evs) =
     (if (xs = [] \<or> st \<noteq> None) \<and> status m' = st \<and> cb_context m' = cb_context m \<and>
         transfers m' = transfers m
      then Some evs else None)"

fun worker_trace :: "spi_message list \<Rightarrow> event list \<Rightarrow> bool" where
  "worker_trace [] evs = (evs = [])"
| "worker_trace (m # q) evs =
     (case msg_events m (transfers m) None evs of
        None \<Rightarrow> False
      | Some rest \<Rightarrow> worker_trace q rest)"

text \<open>
  What the worker leaves in the trace for a message whose next transfer is \<open>x\<close> once
  the stopping flag is set: the transfer fails with \<open>ShuttingDown\<close>, and the callback
  gets the message with that status.
\<close>

definition shutdown_events :: "spi_message \<Rightarrow> spi_transfer \<Rightarrow> event list" where
  "shutdown_events m x =
     [Processed (cb_context m) x (Some ShuttingDown),
      Callback (m\<lparr> status := Some ShuttingDown \<rparr>)]"

text \<open>
  Two conditions on the surroundings under which the worker returns.  The device clears
  the receive-FIFO-has-data flag again and again: after any number of status reads a
  status word without \<open>RXD\<close> follows.  And every transfer of a message has a
  configuration: an override, or the cached one of its peer.
\<close>

definition rx_fifo_empties :: "bcm2708_spi \<Rightarrow> bool" where
  "rx_fifo_empties bs = (\<forall>n. \<exists>k. rd_in bs SPI_CS (n + k) AND SPI_CS_RXD = 0)"

definition configured :: "bcm2708_spi \<Rightarrow> spi_message \<Rightarrow> bool" where
  "configured bs m = (\<forall>x \<in> set (transfers m). xfer_state (clk bs) (spi m) x \<noteq> None)"

text \<open>
  What neither the pump nor the wait changes: the stopping flag, the queue, the clock, the
  device's answers, the interrupts to come, the pending work and the trace.
\<close>

definition ctl_frame :: "bcm2708_spi \<Rightarrow> bcm2708_spi \<Rightarrow> bool" where
  "ctl_frame a b =
     (stopping b = stopping a \<and> queue b = queue a \<and> clk b = clk a \<and> rd_in b = rd_in a \<and>
      irqs b = irqs a \<and> work_pending b = work_pending a \<and> events b = events a)"

subsection \<open>Example configurations\<close>

text \<open>
  A controller at rest on a 250 MHz bus clock whose device answers every read with 0 and
  raises no interrupt; a peer on chip-select 0 in mode 0 with 8-bit words at 1 MHz, set up
  by \<open>bcm2708_spi_setup\<close>; and a transfer of 3 bytes from address 4096 to address 8192
  without overrides.
\<close>

definition idle_controller :: bcm2708_spi where
  "idle_controller =
     \<lparr> stopping = False, queue = [], done_cnt = 0, tx_buf = 0, rx_buf = 0, len = 0,
       clk = 250000000, rd_in = (\<lambda>r k. 0), rd_cnt = (\<lambda>r. 0), wr_log = [],
       mem = (\<lambda>a. 0), irqs = (\<lambda>k ms. 0), waits = 0, work_pending = False,
       events = [] \<rparr>"

definition plain_peer :: spi_device where
  "plain_peer =
     \<lparr> max_speed_hz = 1000000, chip_select = 0, mode = 0, bits_per_word = 8,
       controller_state = Some \<lparr> cs = 0, cdiv = 256 \<rparr> \<rparr>"

definition plain_transfer :: spi_transfer where
  "plain_transfer =
     \<lparr> x_tx_buf = 4096, x_rx_buf = 8192, x_len = 3, x_cs_change = False,
       x_bits_per_word = 0, x_delay_usecs = 0, x_speed_hz = 0 \<rparr>"

definition message_of :: "nat \<Rightarrow> spi_device \<Rightarrow> spi_transfer list \<Rightarrow> spi_message" where
  "message_of c dev xs =
     \<lparr> transfers = xs, spi = dev, cb_context = c, actual_length = 0, status = None \<rparr>"

text \<open>
  Two devices.  The first reports "done" with an empty receive FIFO at every status read;
  the second does the same in wide mode, with the \<open>LEN\<close> flag in the status word.  Both
  raise two interrupts within the timeout of every wait.  The memory holds the bytes 0x11,
  0x22, 0x33 at the addresses 4096 to 4098.
\<close>

definition done_device :: bcm2708_spi where
  "done_device =
     idle_controller
       \<lparr> rd_in := (\<lambda>r k. if r = SPI_CS then SPI_CS_DONE else 0),
         mem := (\<lambda>a. if a = 4096 then 0x11 else if a = 4097 then 0x22
                      else if a = 4098 then 0x33 else 0),
         irqs := (\<lambda>k ms. 2) \<rparr>"

definition wide_device :: bcm2708_spi where
  "wide_device =
     done_device \<lparr> rd_in := (\<lambda>r k. if r = SPI_CS then SPI_CS_DONE OR SPI_CS_LEN else 0) \<rparr>"

definition wide_peer :: spi_device where
  "wide_peer =
     plain_peer \<lparr> bits_per_word := 9,
                  controller_state := Some \<lparr> cs = SPI_CS_LEN, cdiv = 256 \<rparr> \<rparr>"

section \<open>Verification\<close>

subsection \<open>Rounding helpers\<close>

lemma pow2_from_pow:
  "\<exists>j. pow2_from (2 ^ k) n = 2 ^ j \<and> k \<le> j \<and> n \<le> 2 ^ j \<and> (j = k \<or> 2 ^ j < 2 * n)"
proof (induction "n - 2 ^ k" arbitrary: k rule: less_induct)
  case less
  show ?case
  proof (cases "n \<le> 2 ^ k")
    case True
    then show ?thesis by (subst pow2_from.simps) auto
  next
    case False
    define x :: nat where "x = 2 ^ k"
    have "0 < x" "x < n" "2 ^ Suc k = 2 * x" using False by (simp_all add: x_def)
    then have "n - 2 ^ Suc k < n - x" by linarith
    then have "n - 2 ^ Suc k < n - 2 ^ k" by (simp only: x_def)
    from less[OF this] obtain j where
      j: "pow2_from (2 ^ Suc k) n = 2 ^ j" "Suc k \<le> j" "n \<le> 2 ^ j" "j = Suc k \<or> 2 ^ j < 2 * n"
      by blast
    have "2 ^ j < 2 * n" using j(4) False by auto
    moreover have "pow2_from (2 ^ k) n = pow2_from (2 ^ Suc k) n"
      using False by (subst pow2_from.simps) simp
    ultimately show ?thesis using j by (intro exI[of _ j]) auto
  qed
qed

lemma roundup_pow_of_two_char:
  "\<exists>j. roundup_pow_of_two n = 2 ^ j \<and> n \<le> 2 ^ j \<and> (j = 0 \<or> 2 ^ j < 2 * n)"
  using pow2_from_pow[of 0 n] by (auto simp: roundup_pow_of_two_def)

lemma roundup_pow_of_two_le:
  assumes "n \<le> 2 ^ m" shows "roundup_pow_of_two n \<le> 2 ^ m"
proof -
  obtain j where j: "roundup_pow_of_two n = 2 ^ j" "j = 0 \<or> 2 ^ j < 2 * n"
    using roundup_pow_of_two_char[of n] by blast
  have "j \<le> m"
  proof (cases "j = 0")
    case False
    then have "(2::nat) ^ j < 2 ^ Suc m" using j(2) assms by simp
    then have "j < Suc m" using power_less_imp_less_exp[of 2 j "Suc m"] by simp
    then show ?thesis by simp
  qed simp
  then show ?thesis using j(1) by simp
qed

lemma DIV_ROUND_UP_le:
  assumes "0 < d" shows "DIV_ROUND_UP n d \<le> n"
proof (cases "n = 0")
  case True
  then show ?thesis using assms by (simp add: DIV_ROUND_UP_def)
next
  case False
  have "n * d = n + n * (d - 1)" using assms by (cases d) simp_all
  moreover have "d - 1 \<le> n * (d - 1)" using False by simp
  ultimately have "n + d - 1 \<le> n * d" using assms by linarith
  then have "(n + d - 1) div d \<le> (n * d) div d" by (rule div_le_mono)
  then show ?thesis using assms by (simp add: DIV_ROUND_UP_def)
qed

lemma DIV_ROUND_UP_ge: 
  assumes "0 < d" shows "n \<le> DIV_ROUND_UP n d * d"
proof -
  have "n + d - 1 = (n + d - 1) div d * d + (n + d - 1) mod d" by simp
  moreover have "(n + d - 1) mod d \<le> d - 1" using assms
    by (metis Suc_pred less_Suc_eq_le mod_less_divisor One_nat_def)
  ultimately have "n + d - 1 \<le> (n + d - 1) div d * d + (d - 1)" by linarith
  then show ?thesis using assms by (simp add: DIV_ROUND_UP_def)
qed

subsection \<open>Conversions between the machine types\<close>

lemma unat_s32_of_nat: "n < 2 ^ 32 \<Longrightarrow> unat (word_of_int (int n) :: 32 word) = n"
  by (simp add: unat_of_nat)

lemma sint_s32_of_nat:
  assumes "n < 2 ^ 31" shows "sint (word_of_int (int n) :: 32 word) = int n"
proof -
  have "signed_take_bit 31 (int n) = int n"
    using assms by (intro signed_take_bit_int_eq_self) auto
  then show ?thesis by (simp only: sint_sbintrunc') simp
qed

lemma unat_u16_of_s32:
  "n < 2 ^ 16 \<Longrightarrow> unat (ucast (word_of_int (int n) :: 32 word) :: 16 word) = n"
  by (simp add: unsigned_ucast_eq unsigned_of_nat take_bit_nat_eq_self)

lemma setup_cdiv_nat:
  assumes bus: "unat bus_hz \<le> 2 ^ 30"
  shows "map_sum id (\<lambda>c. unat (ucast c :: u16)) (setup_cdiv bus_hz hz) =
         (if unat bus_hz \<le> unat hz then Inr 2 else spec_divisor (unat bus_hz) (unat hz))"
proof (cases "bus_hz \<le> hz")
  case True
  then show ?thesis by (simp add: setup_cdiv_def word_le_nat_alt)
next
  case False
  note lt = this
  show ?thesis
  proof (cases "hz = 0")
    case True
    then show ?thesis using lt by (simp add: setup_cdiv_def spec_divisor_def word_le_nat_alt)
  next
    case False
    then have hz: "0 < unat hz" by (simp add: unat_gt_0)
    define d where "d = DIV_ROUND_UP (unat bus_hz) (unat hz)"
    define p where "p = roundup_pow_of_two d"
    define c2 :: s32 where "c2 = word_of_int (int p)"
    have d: "d \<le> 2 ^ 30" using DIV_ROUND_UP_le[OF hz, of "unat bus_hz"] bus by (simp add: d_def)
    then have p: "p \<le> 2 ^ 30" unfolding p_def by (rule roundup_pow_of_two_le)
    have c1: "unat (word_of_int (int d) :: 32 word) = d"
      using d by (intro unat_s32_of_nat) simp
    have sp: "sint c2 = int p"
      unfolding c2_def using p by (intro sint_s32_of_nat) simp
    have up: "unat c2 = p"
      unfolding c2_def using p by (intro unat_s32_of_nat) simp
    have gt: "(65536 <s c2) = (65536 < p)"
      by (simp only: word_sless_alt sp) simp
    have e1: "(c2 = 65536) = (p = 65536)"
      by (simp add: word_unat_eq_iff up)
    have e2: "(c2 = 1) = (p = 1)"
      by (simp add: word_unat_eq_iff up)
    have lhs: "setup_cdiv bus_hz hz =
        (if 65536 < p then Inl FrequencyTooLow
         else if p = 65536 then Inr 0 else if p = 1 then Inr 2 else Inr c2)"
      using lt False
      by (simp only: setup_cdiv_def Let_def if_False if_True not_False_eq_True
            d_def[symmetric] c1 p_def[symmetric] c2_def[symmetric] gt e1 e2)
    have rhs: "spec_divisor (unat bus_hz) (unat hz) =
        (if 65536 < p then Inl FrequencyTooLow
         else if p = 65536 then Inr 0 else if p = 1 then Inr 2 else Inr p)"
      using lt hz by (simp add: spec_divisor_def Let_def d_def p_def word_le_nat_alt)
    have small: "p < 65536 \<Longrightarrow> unat (ucast c2 :: u16) = p"
      unfolding c2_def by (intro unat_u16_of_s32) simp
    have nle: "\<not> unat bus_hz \<le> unat hz" using lt by (simp add: word_le_nat_alt)
    show ?thesis
      unfolding lhs rhs using small nle by (auto simp: not_less)
  qed
qed

subsection \<open>The clock divisor\<close>

lemma spec_divisor_props:
  assumes hz: "0 < hz" and lt: "hz < bus" and r: "spec_divisor bus hz = Inr r"
  shows "(r = 0 \<or> (2 \<le> r \<and> r < 65536 \<and> (\<exists>k. r = 2 ^ k))) \<and>
         bus div (if r = 0 then 65536 else r) \<le> hz"
proof -
  define d where "d = DIV_ROUND_UP bus hz"
  define p where "p = roundup_pow_of_two d"
  obtain j where j: "p = 2 ^ j" "d \<le> p"
    using roundup_pow_of_two_char[of d] unfolding p_def by auto
  have bd: "bus \<le> d * hz" unfolding d_def using hz by (rule DIV_ROUND_UP_ge)
  have clock: "bus div q \<le> hz" if "p \<le> q" for q
  proof -
    have "0 < q" using that j(1) by (metis zero_less_numeral zero_less_power less_le_trans)
    have "bus \<le> q * hz" using bd j(2) that
      by (meson le_trans mult_le_mono1)
    then have "bus div q \<le> (q * hz) div q" by (rule div_le_mono)
    then show ?thesis using \<open>0 < q\<close> by simp
  qed
  have sd: "spec_divisor bus hz =
        (if 65536 < p then Inl FrequencyTooLow
         else if p = 65536 then Inr 0 else if p = 1 then Inr 2 else Inr p)"
    using hz lt by (simp add: spec_divisor_def Let_def d_def p_def)
  consider (big) "65536 < p" | (top) "p = 65536" | (one) "p = 1" | (mid) "p < 65536" "p \<noteq> 1"
    by linarith
  then show ?thesis
  proof cases
    case big
    then show ?thesis using r sd by simp
  next
    case top
    then have "r = 0" using r sd by simp
    then show ?thesis using clock[of 65536] top by simp
  next
    case one
    then have "r = 2" using r sd by simp
    moreover have "2 = (2::nat) ^ 1" by simp
    ultimately show ?thesis using clock[of 2] one by (auto intro: exI[of _ 1])
  next
    case mid
    then have rp: "r = p" using r sd by simp
    have "j \<noteq> 0" using mid(2) j(1) by (cases j) auto
    then have "2 \<le> p" using j(1) by (cases j) auto
    then show ?thesis using rp mid clock[of p] j(1) by auto
  qed
qed

lemma setup_state_Inr_iff:
  "bcm2708_setup_state bus_hz hz csel md bpw = Inr st \<longleftrightarrow>
   (\<exists>c cs0. setup_cdiv bus_hz hz = Inr c \<and> setup_bpw bpw = Inr cs0 \<and>
      st = \<lparr> cs = setup_mode cs0 csel md, cdiv = ucast c \<rparr>)"
  by (auto simp: bcm2708_setup_state_def split: sum.splits)

text \<open>
  Claim C2, as amended.  For a bus clock of at most \<open>2 ^ 30\<close> Hz (where the 32-bit
  \<open>int cdiv\<close> holds every rounded divisor) and a word width of 8 or 9, the resolver
  stores the divisor 2 when the requested frequency is not below the bus clock, and
  otherwise the divisor of the spec's rule: 0 for a request of 0, else the rounded-up
  quotient rounded up to a power of two, with 65536 stored as 0, 1 stored as 2, and
  \<open>FrequencyTooLow\<close> above 65536.  A divisor above 65536 fails for every word width.
\<close>

theorem setup_state_divisor_rule:
  assumes "unat bus_hz \<le> 2 ^ 30"
  shows "(bpw = 8 \<or> bpw = 9 \<longrightarrow>
          map_sum id (\<lambda>st. unat (cdiv st)) (bcm2708_setup_state bus_hz hz csel md bpw) =
          (if unat bus_hz \<le> unat hz then Inr 2 else spec_divisor (unat bus_hz) (unat hz))) \<and>
         (\<not> unat bus_hz \<le> unat hz \<and> spec_divisor (unat bus_hz) (unat hz) = Inl FrequencyTooLow \<longrightarrow>
          bcm2708_setup_state bus_hz hz csel md bpw = Inl FrequencyTooLow)"
  using setup_cdiv_nat[OF assms, of hz]
  by (cases "setup_cdiv bus_hz hz")
     (auto simp: bcm2708_setup_state_def setup_bpw_def split: if_splits)

text \<open>Claim C2: the amended statement at a 250 MHz bus clock.\<close>

theorem setup_state_divisor_rule_witness:
  "unat (250000000 :: ulong) \<le> 2 ^ 30 \<and>
   map_sum id (\<lambda>st. unat (cdiv st)) (bcm2708_setup_state 250000000 1000000 0 0 8) = Inr 256 \<and>
   bcm2708_setup_state 250000000 3814 0 0 7 = Inl FrequencyTooLow"
  using setup_state_divisor_rule[of 250000000 8 1000000 0 0]
        setup_state_divisor_rule[of 250000000 7 3814 0 0]
  by (simp add: spec_divisor_def DIV_ROUND_UP_def roundup_pow_of_two_def pow2_from.simps)

text \<open>
  Claim C2 as stated fails when the bus clock and the request are both 0: the test
  \<open>hz >= bus_hz\<close> comes first and the divisor is 2, where the spec's rule gives 0.
\<close>

theorem setup_state_zero_clock_counterexample:
  "map_sum id (\<lambda>st. unat (cdiv st)) (bcm2708_setup_state 0 0 0 0 8) = Inr 2 \<and>
   spec_divisor (unat (0 :: ulong)) (unat (0 :: u32)) = Inr 0"
  by (simp add: bcm2708_setup_state_def setup_cdiv_def setup_bpw_def spec_divisor_def)

text \<open>
  Why the bound on the bus clock: at \<open>2 ^ 30 + 1\<close> Hz and a request of 1 Hz the rounded
  divisor is \<open>2 ^ 31\<close>, which is negative as a 32-bit \<open>int\<close>; it passes the test
  \<open>cdiv > 65536\<close> and is stored, cut to 16 bits, as 0.
\<close>

lemma setup_state_int_overflow:
  "bcm2708_setup_state 1073741825 1 0 0 8 = Inr \<lparr> cs = 0, cdiv = 0 \<rparr> \<and>
   spec_divisor (unat (1073741825 :: ulong)) (unat (1 :: u32)) = Inl FrequencyTooLow"
  by (simp add: bcm2708_setup_state_def setup_cdiv_def setup_bpw_def setup_mode_def
      spec_divisor_def DIV_ROUND_UP_def roundup_pow_of_two_def pow2_from.simps
      word_le_nat_alt mode_bits)

text \<open>
  Claim C6, as amended.  For a bus clock of at most \<open>2 ^ 30\<close> Hz, whenever the resolver
  succeeds the stored divisor is 0 or a power of two between 2 and 65536; a request not
  below the bus clock gives the clock \<open>bus_hz / 2\<close>; a request that is not 0 and below
  the bus clock gives a clock that does not exceed the request; a request of 0 gives the
  divisor 0, the slowest clock.
\<close>

theorem setup_state_divisor_range:
  assumes bus: "unat bus_hz \<le> 2 ^ 30"
    and ok: "bcm2708_setup_state bus_hz hz csel md bpw = Inr st"
  shows "(cdiv st = 0 \<or>
           (2 \<le> unat (cdiv st) \<and> unat (cdiv st) \<le> 65536 \<and> (\<exists>k. unat (cdiv st) = 2 ^ k))) \<and>
         (bus_hz \<le> hz \<longrightarrow> spi_clock (unat bus_hz) (cdiv st) = unat bus_hz div 2) \<and>
         (hz \<noteq> 0 \<longrightarrow> hz < bus_hz \<longrightarrow> spi_clock (unat bus_hz) (cdiv st) \<le> unat hz) \<and>
         (hz = 0 \<longrightarrow> hz < bus_hz \<longrightarrow> cdiv st = 0)"
proof -
  from ok obtain c where c: "setup_cdiv bus_hz hz = Inr c" and st: "cdiv st = ucast c"
    by (auto simp: setup_state_Inr_iff)
  have val: "Inr (unat (cdiv st)) =
      (if unat bus_hz \<le> unat hz then Inr 2 else spec_divisor (unat bus_hz) (unat hz))"
    using setup_cdiv_nat[OF bus, of hz] c st by simp
  have z: "(cdiv st = 0) = (unat (cdiv st) = 0)" by (simp add: unat_eq_0)
  show ?thesis
  proof (cases "bus_hz \<le> hz")
    case True
    then have "unat (cdiv st) = 2" using val by (simp add: word_le_nat_alt)
    moreover have "2 = (2::nat) ^ 1" by simp
    ultimately show ?thesis using True
      by (auto simp: spi_clock_def z intro: exI[of _ 1])
  next
    case False
    then have lt: "unat hz < unat bus_hz" by (simp add: word_le_nat_alt)
    show ?thesis
    proof (cases "hz = 0")
      case True
      then have "unat (cdiv st) = 0" using val lt by (simp add: spec_divisor_def)
      then show ?thesis using True False by (simp add: z)
    next
      case nz: False
      then have hz: "0 < unat hz" by (simp add: unat_gt_0)
      have "spec_divisor (unat bus_hz) (unat hz) = Inr (unat (cdiv st))"
        using val lt by simp
      from spec_divisor_props[OF hz lt this] show ?thesis
        using False nz by (auto simp: spi_clock_def z)
    qed
  qed
qed

text \<open>Claim C6: the amended statement at a 250 MHz bus clock and a 1 MHz request.\<close>

theorem setup_state_divisor_range_witness:
  "unat (250000000 :: ulong) \<le> 2 ^ 30 \<and>
   bcm2708_setup_state 250000000 1000000 0 0 8 = Inr \<lparr> cs = 0, cdiv = 256 \<rparr> \<and>
   spi_clock (unat (250000000 :: ulong)) 256 \<le> unat (1000000 :: u32)"
  using setup_state_divisor_range[of 250000000 1000000 0 0 8 "\<lparr> cs = 0, cdiv = 256 \<rparr>"]
  by (simp add: bcm2708_setup_state_def setup_cdiv_def setup_bpw_def setup_mode_def
      DIV_ROUND_UP_def roundup_pow_of_two_def pow2_from.simps word_le_nat_alt word_less_nat_alt
      mode_bits)

text \<open>
  Claim C6 as stated fails for a request of 0: the resolver succeeds with the divisor 0,
  and the resulting clock of 3814 Hz is above the request.
\<close>

theorem setup_state_zero_request_counterexample:
  "bcm2708_setup_state 250000000 0 0 0 8 = Inr \<lparr> cs = 0, cdiv = 0 \<rparr> \<and>
   \<not> (250000000 :: ulong) \<le> 0 \<and>
   \<not> spi_clock (unat (250000000 :: ulong)) 0 \<le> unat (0 :: u32)"
  by (simp add: bcm2708_setup_state_def setup_cdiv_def setup_bpw_def setup_mode_def
      spi_clock_def mode_bits)

subsection \<open>The word width\<close>

lemma LEN_consts:
  "SPI_CS_CPOL AND SPI_CS_LEN = 0" "SPI_CS_CPHA AND SPI_CS_LEN = 0"
  "SPI_CS_CSPOL AND SPI_CS_LEN = 0" "SPI_CS_CS_10 AND SPI_CS_LEN = 0"
  "SPI_CS_CS_01 AND SPI_CS_LEN = 0"
  by (simp_all add: cs_bits)

lemma LEN_exp: "SPI_CS_LEN = 2 ^ 13"
  by (simp add: SPI_CS_LEN_def)

lemma LEN_cspol_shift: "push_bit n SPI_CS_CSPOL0 AND SPI_CS_LEN = 0"
proof -
  have "SPI_CS_CSPOL0 = 2 ^ 21" by (simp add: SPI_CS_CSPOL0_def)
  then have "push_bit n SPI_CS_CSPOL0 = (2 :: u32) ^ (n + 21)"
    by (simp add: push_bit_eq_mult power_add)
  then have "\<not> bit (push_bit n SPI_CS_CSPOL0) 13" by (simp add: bit_exp_iff)
  then show ?thesis unfolding LEN_exp and_exp_eq_0_iff_not_bit .
qed

lemma LEN_csel: "(ucast (csel :: u8) :: u32) AND SPI_CS_LEN = 0"
proof -
  have "\<not> bit (ucast csel :: u32) 13"
    by (auto simp: bit_ucast_iff dest: bit_imp_le_length)
  then show ?thesis unfolding LEN_exp and_exp_eq_0_iff_not_bit .
qed

lemma setup_mode_LEN: "setup_mode cs0 csel md AND SPI_CS_LEN = cs0 AND SPI_CS_LEN"
  by (simp add: setup_mode_def Let_def word_ao_dist LEN_consts LEN_cspol_shift LEN_csel)

text \<open>
  Claim C8, as amended.  The resolver succeeds only for the word widths 8 and 9.  With
  width 8 the wide-mode flag \<open>SPI_CS_LEN\<close> of the control word is clear, with width 9
  it is set.  When the clock divisor resolves, widths 8 and 9 are accepted and any other
  width fails with \<open>InvalidWordWidth\<close>.  When the clock divisor does not resolve, every
  width, 8 and 9 included, fails with \<open>FrequencyTooLow\<close>, since the clock is checked
  first.  In both cases a width other than 8 and 9 fails with \<open>-EINVAL\<close>.
\<close>

theorem setup_state_word_width:
  "((\<exists>st. bcm2708_setup_state bus_hz hz csel md bpw = Inr st) \<longrightarrow> bpw = 8 \<or> bpw = 9) \<and>
   (\<forall>st. bcm2708_setup_state bus_hz hz csel md 8 = Inr st \<longrightarrow> cs st AND SPI_CS_LEN = 0) \<and>
   (\<forall>st. bcm2708_setup_state bus_hz hz csel md 9 = Inr st \<longrightarrow>
      cs st AND SPI_CS_LEN = SPI_CS_LEN) \<and>
   (\<forall>c. setup_cdiv bus_hz hz = Inr c \<longrightarrow>
      (\<exists>st. bcm2708_setup_state bus_hz hz csel md 8 = Inr st) \<and>
      (\<exists>st. bcm2708_setup_state bus_hz hz csel md 9 = Inr st) \<and>
      (bpw \<noteq> 8 \<and> bpw \<noteq> 9 \<longrightarrow>
         bcm2708_setup_state bus_hz hz csel md bpw = Inl InvalidWordWidth)) \<and>
   (\<forall>e. setup_cdiv bus_hz hz = Inl e \<longrightarrow>
      bcm2708_setup_state bus_hz hz csel md bpw = Inl FrequencyTooLow) \<and>
   (bpw \<noteq> 8 \<and> bpw \<noteq> 9 \<longrightarrow>
      (\<exists>e. bcm2708_setup_state bus_hz hz csel md bpw = Inl e \<and> errno e = errno InvalidWordWidth))"
proof -
  have a: "(\<exists>st. bcm2708_setup_state bus_hz hz csel md bpw = Inr st) \<longrightarrow> bpw = 8 \<or> bpw = 9"
    by (auto simp: setup_state_Inr_iff setup_bpw_def split: if_splits)
  have b: "\<forall>st. bcm2708_setup_state bus_hz hz csel md 8 = Inr st \<longrightarrow> cs st AND SPI_CS_LEN = 0"
    by (auto simp: setup_state_Inr_iff setup_bpw_def setup_mode_LEN)
  have c: "\<forall>st. bcm2708_setup_state bus_hz hz csel md 9 = Inr st \<longrightarrow>
      cs st AND SPI_CS_LEN = SPI_CS_LEN"
    by (auto simp: setup_state_Inr_iff setup_bpw_def setup_mode_LEN)
  have d: "\<forall>c. setup_cdiv bus_hz hz = Inr c \<longrightarrow>
      (\<exists>st. bcm2708_setup_state bus_hz hz csel md 8 = Inr st) \<and>
      (\<exists>st. bcm2708_setup_state bus_hz hz csel md 9 = Inr st) \<and>
      (bpw \<noteq> 8 \<and> bpw \<noteq> 9 \<longrightarrow>
         bcm2708_setup_state bus_hz hz csel md bpw = Inl InvalidWordWidth)"
    by (simp add: bcm2708_setup_state_def setup_bpw_def)
  have e: "bpw \<noteq> 8 \<and> bpw \<noteq> 9 \<longrightarrow>
      (\<exists>e. bcm2708_setup_state bus_hz hz csel md bpw = Inl e \<and> errno e = errno InvalidWordWidth)"
    by (cases "setup_cdiv bus_hz hz")
       (auto simp: bcm2708_setup_state_def setup_bpw_def setup_cdiv_def Let_def split: if_splits)
  have f: "\<forall>e. setup_cdiv bus_hz hz = Inl e \<longrightarrow>
      bcm2708_setup_state bus_hz hz csel md bpw = Inl FrequencyTooLow"
    by (auto simp: bcm2708_setup_state_def setup_cdiv_def Let_def split: if_splits)
  from a b c d e f show ?thesis by blast
qed

text \<open>
  Claim C8: widths 8, 9 and 16 at a 250 MHz bus clock with a request of 1 MHz, which
  resolves, and width 16 with a request of 3814 Hz, which does not.
\<close>

theorem setup_state_word_width_witness:
  "bcm2708_setup_state 250000000 1000000 0 0 8 = Inr \<lparr> cs = 0, cdiv = 256 \<rparr> \<and>
   bcm2708_setup_state 250000000 1000000 0 0 9 = Inr \<lparr> cs = SPI_CS_LEN, cdiv = 256 \<rparr> \<and>
   bcm2708_setup_state 250000000 1000000 0 0 16 = Inl InvalidWordWidth \<and>
   bcm2708_setup_state 250000000 3814 0 0 16 = Inl FrequencyTooLow"
  using setup_state_word_width[of 250000000 1000000 0 0 16]
        setup_state_word_width[of 250000000 3814 0 0 16]
  by (simp add: bcm2708_setup_state_def setup_cdiv_def setup_bpw_def setup_mode_def
      DIV_ROUND_UP_def roundup_pow_of_two_def pow2_from.simps word_le_nat_alt mode_bits)

text \<open>
  Claim C8 as stated fails when the clock divisor does not resolve: at a 250 MHz bus clock
  and a request of 3814 Hz the rounded divisor is 131072, so width 8 is not accepted and
  width 7 fails with \<open>FrequencyTooLow\<close>, not with \<open>InvalidWordWidth\<close>.
\<close>

theorem setup_state_width_slow_clock_counterexample:
  "bcm2708_setup_state 250000000 3814 0 0 8 = Inl FrequencyTooLow \<and>
   bcm2708_setup_state 250000000 3814 0 0 7 = Inl FrequencyTooLow \<and>
   bcm2708_setup_state 250000000 3814 0 0 7 \<noteq> Inl InvalidWordWidth"
  by (simp add: bcm2708_setup_state_def setup_cdiv_def setup_bpw_def
      DIV_ROUND_UP_def roundup_pow_of_two_def pow2_from.simps word_le_nat_alt)

subsection \<open>Peer setup, submission and shutdown\<close>

lemma setup_state_Inl:
  "bcm2708_setup_state bus_hz hz csel md bpw = Inl e \<Longrightarrow> e = FrequencyTooLow \<or> e = InvalidWordWidth"
  by (auto simp: bcm2708_setup_state_def setup_cdiv_def setup_bpw_def Let_def
      split: sum.splits if_splits)

text \<open>
  Claim C9, as amended.  For a peer without the \<open>SPI_NO_CS\<close> flag,
  \<open>bcm2708_spi_setup\<close> fails with \<open>InvalidChipselect\<close> exactly when the controller is
  not stopping and the chip-select index is above 3, the configured count; it then leaves
  the peer as it is.  On a controller that is not stopping, an index of at most 3, the
  count itself included, passes the check: the result is that of resolving the peer's
  configuration.  On a stopping controller the request fails with \<open>ShuttingDown\<close>
  before the check, whatever the index.
\<close>

theorem spi_setup_chipselect_check:
  assumes "mode dev AND SPI_NO_CS = 0"
  shows "((fst (bcm2708_spi_setup bs alloc_ok dev) = Some InvalidChipselect) =
            (\<not> stopping bs \<and> 3 < unat (chip_select dev))) \<and>
         (stopping bs \<longrightarrow> bcm2708_spi_setup bs alloc_ok dev = (Some ShuttingDown, dev)) \<and>
         (\<not> stopping bs \<longrightarrow> 3 < unat (chip_select dev) \<longrightarrow>
            bcm2708_spi_setup bs alloc_ok dev = (Some InvalidChipselect, dev)) \<and>
         (\<not> stopping bs \<longrightarrow> unat (chip_select dev) \<le> 3 \<longrightarrow> alloc_ok \<longrightarrow>
            bcm2708_spi_setup bs alloc_ok dev =
              (case bcm2708_setup_state (clk bs) (max_speed_hz dev) (chip_select dev)
                      (mode dev) (bits_per_word dev) of
                 Inl e \<Rightarrow> (Some e, dev\<lparr> controller_state := None \<rparr>)
               | Inr st \<Rightarrow> (None, dev\<lparr> controller_state := Some st \<rparr>)))"
  using assms
  by (auto simp: bcm2708_spi_setup_def num_chipselect_def split: sum.splits
      dest: setup_state_Inl)

text \<open>
  Claim C9: on a controller that is not stopping, index 3 is accepted and index 4 is
  rejected.
\<close>

theorem spi_setup_chipselect_check_witness:
  "\<not> stopping idle_controller \<and> mode (plain_peer\<lparr> chip_select := 3 \<rparr>) AND SPI_NO_CS = 0 \<and>
   mode (plain_peer\<lparr> chip_select := 4 \<rparr>) AND SPI_NO_CS = 0 \<and>
   bcm2708_spi_setup idle_controller True (plain_peer\<lparr> chip_select := 3 \<rparr>) =
     (None, plain_peer\<lparr> chip_select := 3, controller_state := Some \<lparr> cs = 3, cdiv = 256 \<rparr> \<rparr>) \<and>
   bcm2708_spi_setup idle_controller True (plain_peer\<lparr> chip_select := 4 \<rparr>) =
     (Some InvalidChipselect, plain_peer\<lparr> chip_select := 4 \<rparr>)"
  using spi_setup_chipselect_check[of "plain_peer\<lparr> chip_select := 3 \<rparr>" idle_controller True]
        spi_setup_chipselect_check[of "plain_peer\<lparr> chip_select := 4 \<rparr>" idle_controller True]
  by (simp add: idle_controller_def plain_peer_def bcm2708_setup_state_def setup_cdiv_def
      setup_bpw_def setup_mode_def DIV_ROUND_UP_def roundup_pow_of_two_def pow2_from.simps
      word_le_nat_alt mode_bits)

text \<open>
  Claim C9 as stated fails on a stopping controller: after the locked section of
  \<open>bcm2708_spi_remove\<close>, a request for index 4 without the \<open>SPI_NO_CS\<close> flag fails
  with \<open>ShuttingDown\<close>, not with \<open>InvalidChipselect\<close>.
\<close>

theorem spi_setup_stopping_counterexample:
  "mode (plain_peer\<lparr> chip_select := 4 \<rparr>) AND SPI_NO_CS = 0 \<and>
   3 < unat (chip_select (plain_peer\<lparr> chip_select := 4 \<rparr>)) \<and>
   bcm2708_spi_setup (bcm2708_spi_remove idle_controller) True
       (plain_peer\<lparr> chip_select := 4 \<rparr>) =
     (Some ShuttingDown, plain_peer\<lparr> chip_select := 4 \<rparr>) \<and>
   fst (bcm2708_spi_setup (bcm2708_spi_remove idle_controller) True
          (plain_peer\<lparr> chip_select := 4 \<rparr>)) \<noteq> Some InvalidChipselect"
  by (simp add: bcm2708_spi_setup_def bcm2708_spi_remove_def bcm2708_wr_def
      plain_peer_def mode_bits)

text \<open>
  Claim C7, as amended.  While the controller is stopping, a submission changes nothing:
  the queue and the rest of the controller stay as they are.  A message with at least one
  transfer is refused with \<open>ShuttingDown\<close>; a message without transfers is refused with
  \<open>EmptyMessage\<close>, since that check comes first.
\<close>

theorem submit_while_stopping:
  assumes "stopping bs"
  shows "bcm2708_spi_transfer bs dev msg =
           (Some (if transfers msg = [] then EmptyMessage else ShuttingDown), bs)"
  using assms by (simp add: bcm2708_spi_transfer_def)

text \<open>Claim C7: a submission after the locked section of \<open>bcm2708_spi_remove\<close>.\<close>

theorem submit_while_stopping_witness:
  "stopping (bcm2708_spi_remove idle_controller) \<and>
   bcm2708_spi_transfer (bcm2708_spi_remove idle_controller) plain_peer
       (message_of 1 plain_peer [plain_transfer]) =
     (Some ShuttingDown, bcm2708_spi_remove idle_controller)"
  using submit_while_stopping[of "bcm2708_spi_remove idle_controller" plain_peer
          "message_of 1 plain_peer [plain_transfer]"]
  by (simp add: bcm2708_spi_remove_def bcm2708_wr_def message_of_def)

text \<open>
  Claim C7 as stated fails for a message without transfers: after shutdown its submission
  returns \<open>EmptyMessage\<close>, not \<open>ShuttingDown\<close>.
\<close>

theorem submit_empty_while_stopping_counterexample:
  "stopping (bcm2708_spi_remove idle_controller) \<and>
   fst (bcm2708_spi_transfer (bcm2708_spi_remove idle_controller) plain_peer
          (message_of 1 plain_peer [])) = Some EmptyMessage \<and>
   fst (bcm2708_spi_transfer (bcm2708_spi_remove idle_controller) plain_peer
          (message_of 1 plain_peer [])) \<noteq> Some ShuttingDown"
  by (simp add: bcm2708_spi_transfer_def bcm2708_spi_remove_def bcm2708_wr_def message_of_def)

lemma check_transfers_speed_override:
  "\<forall>x \<in> set xs. x_speed_hz x \<noteq> 0 \<and> (x_len x \<noteq> 0 \<longrightarrow> x_tx_buf x \<noteq> 0 \<or> x_rx_buf x \<noteq> 0) \<Longrightarrow>
   check_transfers bus_hz dev xs = None"
  by (induction xs) auto

text \<open>
  Claim C4, where the code departs from it.  On a controller that is not stopping, a
  message whose transfers all carry a speed override (and a buffer when their length is not
  0) is queued whatever the overrides are: the guard at line 442 skips every transfer with
  a speed override, so none of them is resolved at submission.
\<close>

theorem submit_skips_speed_override:
  assumes "\<not> stopping bs" and "transfers msg \<noteq> []"
    and "\<forall>x \<in> set (transfers msg).
           x_speed_hz x \<noteq> 0 \<and> (x_len x \<noteq> 0 \<longrightarrow> x_tx_buf x \<noteq> 0 \<or> x_rx_buf x \<noteq> 0)"
  shows "bcm2708_spi_transfer bs dev msg =
           (None, bs\<lparr> queue := queue bs @ [msg\<lparr> status := Some InProgress,
                                                   actual_length := 0 \<rparr>],
                      work_pending := True \<rparr>)"
  using assms by (simp add: bcm2708_spi_transfer_def check_transfers_speed_override)

text \<open>
  Claim C4: a transfer that overrides the word width with 16, which does not resolve, and
  the speed is queued; the same transfer without the speed override is refused with
  \<open>InvalidWordWidth\<close>.
\<close>

theorem submit_skips_speed_override_witness:
  "\<not> stopping idle_controller \<and>
   xfer_state (clk idle_controller) plain_peer
      (plain_transfer\<lparr> x_bits_per_word := 16, x_speed_hz := 1000000 \<rparr>) =
     Some (Inl InvalidWordWidth) \<and>
   bcm2708_spi_transfer idle_controller plain_peer
      (message_of 1 plain_peer [plain_transfer\<lparr> x_bits_per_word := 16, x_speed_hz := 1000000 \<rparr>]) =
     (None, idle_controller\<lparr> queue :=
        [(message_of 1 plain_peer
            [plain_transfer\<lparr> x_bits_per_word := 16, x_speed_hz := 1000000 \<rparr>])
           \<lparr> status := Some InProgress, actual_length := 0 \<rparr>],
        work_pending := True \<rparr>) \<and>
   bcm2708_spi_transfer idle_controller plain_peer
      (message_of 1 plain_peer [plain_transfer\<lparr> x_bits_per_word := 16 \<rparr>]) =
     (Some InvalidWordWidth, idle_controller)"
  using submit_skips_speed_override[of idle_controller
          "message_of 1 plain_peer [plain_transfer\<lparr> x_bits_per_word := 16, x_speed_hz := 1000000 \<rparr>]"
          plain_peer]
  by (simp add: xfer_state_def bcm2708_spi_transfer_def idle_controller_def plain_peer_def
      plain_transfer_def message_of_def bcm2708_setup_state_def setup_cdiv_def
      setup_bpw_def setup_mode_def DIV_ROUND_UP_def roundup_pow_of_two_def pow2_from.simps
      word_le_nat_alt mode_bits)

subsection \<open>The transfer pump\<close>

lemma sint_nonneg_unat:
  assumes "0 \<le>s (x :: 32 word)" shows "sint x = int (unat x)"
proof -
  have a: "0 \<le> sint x" using assms by (simp add: word_sle_eq)
  have b: "sint x < 2 ^ 32" using sint_lt[of x] by simp
  have "uint x = take_bit 32 (sint x)" using uint_sint[of x] by simp
  also have "\<dots> = sint x" using a b by (simp add: take_bit_int_eq_self)
  finally show ?thesis by simp
qed

lemma odd_sint_unat: "odd (sint (x :: 32 word)) = odd (unat x)"
proof -
  have "uint x = take_bit 32 (sint x)" using uint_sint[of x] by simp
  then have "even (uint x) = even (sint x)" by (simp add: even_take_bit_eq)
  moreover have "uint x = int (unat x)" by simp
  ultimately show ?thesis by (metis even_of_nat)
qed

lemma clamp_unat:
  assumes "0 \<le>s (l :: 32 word)" and "0 \<le>s (n :: 32 word)"
  shows "unat (if l <s n then l else n) = min (unat n) (unat l)"
proof -
  have "(l <s n) = (unat l < unat n)"
    using assms by (simp only: word_sless_alt sint_nonneg_unat of_nat_less_iff)
  then show ?thesis by (simp add: min_def)
qed

lemma rd_fifo_funpow: "bcm2708_rd_fifo bs n = (rd_fifo_byte ^^ unat n) bs"
proof (induction bs n rule: bcm2708_rd_fifo.induct)
  case (1 bs n)
  show ?case
  proof (cases "n = 0")
    case True
    then show ?thesis by (simp add: bcm2708_rd_fifo.simps)
  next
    case False
    then have "unat n = Suc (unat (n - 1))"
      by (simp add: unat_minus_one unat_gt_0)
    then show ?thesis using False 1
      by (subst bcm2708_rd_fifo.simps) (simp add: funpow_swap1)
  qed
qed

lemma rd_fifo_byte_pull: "rd_fifo_byte (pull_bytes k bs) = pull_bytes (Suc k) bs"
  by (auto simp: rd_fifo_byte_def pull_bytes_def bcm2708_rd_def rx_byte_def Let_def fun_eq_iff
      intro!: bcm2708_spi.equality)

lemma pull_bytes_0: "pull_bytes 0 bs = bs"
  by (auto simp: pull_bytes_def fun_eq_iff intro!: bcm2708_spi.equality)

lemma funpow_pull: "(rd_fifo_byte ^^ k) bs = pull_bytes k bs"
  by (induction k) (simp_all add: pull_bytes_0 rd_fifo_byte_pull)

lemma rd_fifo_pull: "bcm2708_rd_fifo bs n = pull_bytes (unat n) bs"
  by (simp add: rd_fifo_funpow funpow_pull)

lemma wr_fifo_bytes_funpow: "wr_fifo_bytes bs n = (wr_fifo_byte ^^ unat n) bs"
proof (induction bs n rule: wr_fifo_bytes.induct)
  case (1 bs n)
  show ?case
  proof (cases "n = 0")
    case True
    then show ?thesis by (simp add: wr_fifo_bytes.simps)
  next
    case False
    then have "unat n = Suc (unat (n - 1))"
      by (simp add: unat_minus_one unat_gt_0)
    then show ?thesis using False 1
      by (subst wr_fifo_bytes.simps) (simp add: funpow_swap1)
  qed
qed

lemma wr_fifo_byte_push: "wr_fifo_byte (push_bytes k bs) = push_bytes (Suc k) bs"
  by (auto simp: wr_fifo_byte_def push_bytes_def bcm2708_wr_def tx_byte_def Let_def
      intro!: bcm2708_spi.equality)

lemma push_bytes_0: "push_bytes 0 bs = bs"
  by (simp add: push_bytes_def)

lemma funpow_push: "(wr_fifo_byte ^^ k) bs = push_bytes k bs"
  by (induction k) (simp_all add: push_bytes_0 wr_fifo_byte_push)

lemma wr_fifo_bytes_push: "wr_fifo_bytes bs n = push_bytes (unat n) bs"
  by (simp add: wr_fifo_bytes_funpow funpow_push)

lemma wr_fifo_word_push:
  "even k \<Longrightarrow> wr_fifo_word (push_words k bs) = push_words (Suc (Suc k)) bs"
  by (auto simp: wr_fifo_word_def push_words_def bcm2708_wr_def tx_word_def Let_def
      intro!: bcm2708_spi.equality)

lemma push_words_0: "push_words 0 bs = bs"
  by (simp add: push_words_def)

lemma wr_fifo_words_push:
  "even k \<Longrightarrow> even (unat n) \<Longrightarrow>
   wr_fifo_words (push_words k bs) n = Some (push_words (k + unat n) bs)"
proof (induction "unat n" arbitrary: n k rule: less_induct)
  case less
  show ?case
  proof (cases "n = 0")
    case True
    then show ?thesis by (subst wr_fifo_words.simps) simp
  next
    case False
    then have "unat n \<noteq> 0" by (simp add: unat_eq_0)
    with less.prems(2) have ge: "2 \<le> unat n" by (cases "unat n = 1") auto
    then have "2 \<le> n" by (simp add: word_le_nat_alt)
    then have sub: "unat (n - 2) = unat n - 2" by (simp add: unat_sub)
    have "wr_fifo_words (push_words k bs) n =
          wr_fifo_words (push_words (Suc (Suc k)) bs) (n - 2)"
      using False less.prems(1) by (subst wr_fifo_words.simps) (simp add: wr_fifo_word_push)
    also have "\<dots> = Some (push_words (Suc (Suc k) + unat (n - 2)) bs)"
      using less.prems ge sub by (intro less.hyps) auto
    also have "Suc (Suc k) + unat (n - 2) = k + unat n" using ge sub by simp
    finally show ?thesis .
  qed
qed

lemma rd_status: "bcm2708_rd bs SPI_CS = (status_word bs 0, count_reads SPI_CS 1 bs)"
  by (simp add: bcm2708_rd_def status_word_def count_reads_def)

lemma count_reads_fields [simp]:
  "len (count_reads r k bs) = len bs" "tx_buf (count_reads r k bs) = tx_buf bs"
  "rx_buf (count_reads r k bs) = rx_buf bs" "done_cnt (count_reads r k bs) = done_cnt bs"
  "rd_in (count_reads r k bs) = rd_in bs" "mem (count_reads r k bs) = mem bs"
  "wr_log (count_reads r k bs) = wr_log bs"
  by (simp_all add: count_reads_def)

lemma wr_fifo_pump:
  assumes "0 \<le>s len bs" and "0 \<le>s n"
  shows "bcm2708_wr_fifo bs n = Some (pump_push (unat n) bs)"
proof -
  define n' where "n' = (if len bs <s n then len bs else n)"
  define k where "k = min (unat n) (unat (len bs))"
  have k: "unat n' = k" unfolding n'_def k_def using assms by (rule clamp_unat)
  have par: "odd (sint n') = odd k" by (simp add: odd_sint_unat k)
  have words: "even k \<Longrightarrow> wr_fifo_words (count_reads SPI_CS 1 bs) n' =
      Some (push_words k (count_reads SPI_CS 1 bs))"
    using wr_fifo_words_push[of 0 n' "count_reads SPI_CS 1 bs"] by (simp add: k push_words_0)
  show ?thesis
    unfolding bcm2708_wr_fifo_def pump_push_def Let_def rd_status fst_conv snd_conv
      n'_def[symmetric] k_def[symmetric]
    using words by (simp add: par wr_fifo_bytes_push k)
qed

lemma CS_neq_FIFO [simp]: "SPI_CS \<noteq> SPI_FIFO" "SPI_FIFO \<noteq> SPI_CS"
  by (simp_all add: SPI_CS_def SPI_FIFO_def)

lemma pull_bytes_add: "pull_bytes a (pull_bytes b bs) = pull_bytes (a + b) bs"
  by (simp add: funpow_pull[symmetric] funpow_add)

lemma pull_count_commute:
  "pull_bytes k (count_reads SPI_CS j bs) = count_reads SPI_CS j (pull_bytes k bs)"
  by (auto simp: pull_bytes_def count_reads_def rx_byte_def fun_eq_iff
      intro!: bcm2708_spi.equality)

lemma count_reads_add:
  "count_reads r a (count_reads r b bs) = count_reads r (b + a) bs"
  by (simp add: count_reads_def add.assoc)

lemma status_word_pull [simp]: "status_word (pull_bytes k bs) j = status_word bs j"
  by (simp add: status_word_def pull_bytes_def)

lemma status_word_count [simp]:
  "status_word (count_reads SPI_CS i bs) j = status_word bs (i + j)"
  by (simp add: status_word_def count_reads_def add.assoc)

lemma drain_rx_run:
  assumes "k = 0 \<longrightarrow> c AND SPI_CS_RXD = 0"
    and "k \<noteq> 0 \<longrightarrow> c AND SPI_CS_RXD \<noteq> 0"
    and "\<forall>j. Suc j < k \<longrightarrow> status_word bs j AND SPI_CS_RXD \<noteq> 0"
    and "k \<noteq> 0 \<longrightarrow> status_word bs (k - 1) AND SPI_CS_RXD = 0"
  shows "drain_rx bs c = Some (count_reads SPI_CS k (pull_bytes k bs))"
  using assms
proof (induction k arbitrary: bs c)
  case 0
  then show ?case
    by (subst drain_rx.simps) (simp add: pull_bytes_0 count_reads_def)
next
  case (Suc k)
  define bs' where "bs' = count_reads SPI_CS 1 (pull_bytes 1 bs)"
  have step: "drain_rx bs c = drain_rx bs' (status_word bs 0)"
    using Suc.prems(2)
    by (subst drain_rx.simps) (simp add: rd_fifo_pull rd_status bs'_def)
  have "drain_rx bs' (status_word bs 0) = Some (count_reads SPI_CS k (pull_bytes k bs'))"
  proof (rule Suc.IH)
    show "k = 0 \<longrightarrow> status_word bs 0 AND SPI_CS_RXD = 0" using Suc.prems(4) by auto
    show "k \<noteq> 0 \<longrightarrow> status_word bs 0 AND SPI_CS_RXD \<noteq> 0" using Suc.prems(3) by auto
    show "\<forall>j. Suc j < k \<longrightarrow> status_word bs' j AND SPI_CS_RXD \<noteq> 0"
      using Suc.prems(3) by (auto simp: bs'_def)
    show "k \<noteq> 0 \<longrightarrow> status_word bs' (k - 1) AND SPI_CS_RXD = 0"
      using Suc.prems(4) by (auto simp: bs'_def)
  qed
  also have "count_reads SPI_CS k (pull_bytes k bs') =
             count_reads SPI_CS (Suc k) (pull_bytes (Suc k) bs)"
    by (simp add: bs'_def pull_count_commute pull_bytes_add count_reads_add)
  finally show ?case using step by simp
qed

lemma RXD_mask: "(c AND NOT (SPI_CS_INTR OR SPI_CS_INTD)) AND SPI_CS_RXD = c AND SPI_CS_RXD"
proof (rule bit_eqI)
  fix n
  have "(SPI_CS_INTR OR SPI_CS_INTD) AND SPI_CS_RXD = 0" by (simp add: cs_bits)
  then have "bit ((SPI_CS_INTR OR SPI_CS_INTD) AND SPI_CS_RXD) n = bit (0 :: u32) n"
    by simp
  then have "\<not> (bit (SPI_CS_INTR OR SPI_CS_INTD) n \<and> bit SPI_CS_RXD n)"
    by (simp add: bit_and_iff)
  then show "bit ((c AND NOT (SPI_CS_INTR OR SPI_CS_INTD)) AND SPI_CS_RXD) n =
             bit (c AND SPI_CS_RXD) n"
    by (auto simp: bit_and_iff bit_not_iff bit_or_iff dest: bit_imp_le_length)
qed

lemma interrupt_finish:
  assumes d: "status_word bs 0 AND SPI_CS_DONE \<noteq> 0" and l: "len bs = 0"
    and set: "\<forall>j<k. status_word bs j AND SPI_CS_RXD \<noteq> 0"
    and clr: "status_word bs k AND SPI_CS_RXD = 0"
  shows "bcm2708_spi_interrupt bs = Some (pump_finish k bs)"
proof -
  define c' where "c' = status_word bs 0 AND NOT (SPI_CS_INTR OR SPI_CS_INTD)"
  define bs2 where "bs2 = bcm2708_wr (count_reads SPI_CS 1 bs) SPI_CS c'"
  have sw: "status_word bs2 j = status_word bs (Suc j)" for j
    by (simp add: bs2_def bcm2708_wr_def status_word_def count_reads_def)
  have rxd: "c' AND SPI_CS_RXD = status_word bs 0 AND SPI_CS_RXD"
    unfolding c'_def by (rule RXD_mask)
  have "drain_rx bs2 c' = Some (count_reads SPI_CS k (pull_bytes k bs2))"
  proof (rule drain_rx_run)
    show "k = 0 \<longrightarrow> c' AND SPI_CS_RXD = 0" using clr rxd by auto
    show "k \<noteq> 0 \<longrightarrow> c' AND SPI_CS_RXD \<noteq> 0" using set rxd by auto
    show "\<forall>j. Suc j < k \<longrightarrow> status_word bs2 j AND SPI_CS_RXD \<noteq> 0" using set sw by auto
    show "k \<noteq> 0 \<longrightarrow> status_word bs2 (k - 1) AND SPI_CS_RXD = 0" using clr sw by auto
  qed
  then show ?thesis
    unfolding bcm2708_spi_interrupt_def rd_status Let_def fst_conv snd_conv pump_finish_def
      c'_def[symmetric] bs2_def[symmetric]
    using d l by simp
qed

lemma pull_bytes_len [simp]: "len (pull_bytes k bs) = len bs"
  by (simp add: pull_bytes_def)

text \<open>
  Claim C1, as amended.  With a remaining length that is not negative, one call of the
  interrupt handler does the following, by the status word it reads first.  "Done" with a
  remaining length that is not 0: the push of up to 16 bytes.  "Done" with a remaining
  length of 0, when the receive-FIFO-has-data flag is set in the first \<open>k\<close> status words
  and clear in the next: the end of the transfer with \<open>k\<close> bytes drained.  Not "done"
  but "ready": 12 bytes drained, then the push of up to 12 bytes.  Neither: only the
  status read.  The push is \<open>pump_push\<close>: in wide mode with an odd count it writes
  nothing and sets the remaining length to 0.
\<close>

theorem spi_interrupt_pump:
  assumes "0 \<le>s len bs"
  shows "(status_word bs 0 AND SPI_CS_DONE \<noteq> 0 \<and> len bs \<noteq> 0 \<longrightarrow>
            bcm2708_spi_interrupt bs = Some (pump_push 16 (count_reads SPI_CS 1 bs))) \<and>
         (status_word bs 0 AND SPI_CS_DONE \<noteq> 0 \<and> len bs = 0 \<and>
          (\<forall>j<k. status_word bs j AND SPI_CS_RXD \<noteq> 0) \<and>
          status_word bs k AND SPI_CS_RXD = 0 \<longrightarrow>
            bcm2708_spi_interrupt bs = Some (pump_finish k bs)) \<and>
         (status_word bs 0 AND SPI_CS_DONE = 0 \<and> status_word bs 0 AND SPI_CS_RXR \<noteq> 0 \<longrightarrow>
            bcm2708_spi_interrupt bs =
              Some (pump_push 12 (pull_bytes 12 (count_reads SPI_CS 1 bs)))) \<and>
         (status_word bs 0 AND SPI_CS_DONE = 0 \<and> status_word bs 0 AND SPI_CS_RXR = 0 \<longrightarrow>
            bcm2708_spi_interrupt bs = Some (count_reads SPI_CS 1 bs))"
proof -
  have s16: "0 \<le>s (16 :: s32)" and s12: "0 \<le>s (12 :: s32)"
    by (simp_all add: word_sle_eq)
  have a: "bcm2708_wr_fifo (count_reads SPI_CS 1 bs) 16 =
           Some (pump_push 16 (count_reads SPI_CS 1 bs))"
    using wr_fifo_pump[of "count_reads SPI_CS 1 bs" 16] assms s16 by simp
  have c: "bcm2708_wr_fifo (pull_bytes 12 (count_reads SPI_CS 1 bs)) 12 =
           Some (pump_push 12 (pull_bytes 12 (count_reads SPI_CS 1 bs)))"
    using wr_fifo_pump[of "pull_bytes 12 (count_reads SPI_CS 1 bs)" 12] assms s12 by simp
  have A: "status_word bs 0 AND SPI_CS_DONE \<noteq> 0 \<and> len bs \<noteq> 0 \<longrightarrow>
            bcm2708_spi_interrupt bs = Some (pump_push 16 (count_reads SPI_CS 1 bs))"
    using a by (simp add: bcm2708_spi_interrupt_def rd_status Let_def)
  have B: "status_word bs 0 AND SPI_CS_DONE \<noteq> 0 \<and> len bs = 0 \<and>
          (\<forall>j<k. status_word bs j AND SPI_CS_RXD \<noteq> 0) \<and>
          status_word bs k AND SPI_CS_RXD = 0 \<longrightarrow>
            bcm2708_spi_interrupt bs = Some (pump_finish k bs)"
    using interrupt_finish[of bs k] by blast
  have C: "status_word bs 0 AND SPI_CS_DONE = 0 \<and> status_word bs 0 AND SPI_CS_RXR \<noteq> 0 \<longrightarrow>
            bcm2708_spi_interrupt bs =
              Some (pump_push 12 (pull_bytes 12 (count_reads SPI_CS 1 bs)))"
    using c by (simp add: bcm2708_spi_interrupt_def rd_status Let_def rd_fifo_pull)
  have D: "status_word bs 0 AND SPI_CS_DONE = 0 \<and> status_word bs 0 AND SPI_CS_RXR = 0 \<longrightarrow>
            bcm2708_spi_interrupt bs = Some (count_reads SPI_CS 1 bs)"
    by (simp add: bcm2708_spi_interrupt_def rd_status Let_def)
  from A B C D show ?thesis by blast
qed

text \<open>
  Claim C1: the first interrupt of a 3-byte transfer pushes the 3 bytes, and the interrupt
  after the last push raises the completion.
\<close>

theorem spi_interrupt_pump_witness:
  "0 \<le>s len (done_device\<lparr> tx_buf := 4096, len := 3 \<rparr>) \<and>
   status_word (done_device\<lparr> tx_buf := 4096, len := 3 \<rparr>) 0 AND SPI_CS_DONE \<noteq> 0 \<and>
   map_option (\<lambda>b. (wr_log b, len b, tx_buf b))
     (bcm2708_spi_interrupt (done_device\<lparr> tx_buf := 4096, len := 3 \<rparr>)) =
     Some ([(SPI_FIFO, 0x11), (SPI_FIFO, 0x22), (SPI_FIFO, 0x33)], 0, 4099) \<and>
   map_option done_cnt (bcm2708_spi_interrupt (done_device\<lparr> tx_buf := 4099, len := 0 \<rparr>)) =
     Some 1"
  using spi_interrupt_pump[of "done_device\<lparr> tx_buf := 4096, len := 3 \<rparr>" 0]
        spi_interrupt_pump[of "done_device\<lparr> tx_buf := 4099, len := 0 \<rparr>" 0]
  by (simp add: done_device_def idle_controller_def status_word_def pump_push_def
      pump_finish_def push_bytes_def pull_bytes_def count_reads_def complete_def
      bcm2708_wr_def tx_byte_def Let_def cs_bits SPI_CS_def SPI_FIFO_def word_sle_eq upt_rec)

text \<open>
  Claim C1 as stated fails in wide mode: with "done" set and a remaining length of 3, the
  handler writes nothing to the FIFO, leaves the tx cursor where it is and sets the
  remaining length to 0.
\<close>

theorem spi_interrupt_wide_odd_counterexample:
  "len (wide_device\<lparr> tx_buf := 4096, len := 3 \<rparr>) = 3 \<and>
   status_word (wide_device\<lparr> tx_buf := 4096, len := 3 \<rparr>) 0 AND SPI_CS_DONE \<noteq> 0 \<and>
   map_option (\<lambda>b. (wr_log b, len b, tx_buf b))
     (bcm2708_spi_interrupt (wide_device\<lparr> tx_buf := 4096, len := 3 \<rparr>)) =
     Some ([], 0, 4096)"
  by (simp add: wide_device_def done_device_def idle_controller_def status_word_def
      bcm2708_spi_interrupt_def bcm2708_wr_fifo_def bcm2708_rd_def Let_def cs_bits
      SPI_CS_def SPI_FIFO_def)

subsection \<open>The remaining length stays non-negative\<close>

text \<open>
  A transfer shorter than \<open>2 ^ 31\<close> bytes is armed with a remaining length that is not
  negative, and no call of the interrupt handler makes it negative.
\<close>

lemma len_nonneg_iff: "(0 \<le>s (x :: 32 word)) = (unat x < 2 ^ 31)"
proof
  assume a: "0 \<le>s x"
  have "sint x < 2 ^ 31" using sint_lt[of x] by simp
  then have "int (unat x) < int (2 ^ 31)" using sint_nonneg_unat[OF a] by simp
  then show "unat x < 2 ^ 31" by (simp only: of_nat_less_iff)
next
  assume a: "unat x < 2 ^ 31"
  have "uint x = int (unat x)" by simp
  also have "\<dots> < int (2 ^ 31)" using a by (simp only: of_nat_less_iff)
  finally have "uint x < 2 ^ 31" by simp
  then have "signed_take_bit 31 (uint x) = uint x"
    by (intro signed_take_bit_int_eq_self) (auto intro: order_trans[of _ 0])
  then have "sint x = uint x" using sint_uint[of x] by simp
  then show "0 \<le>s x" by (simp add: word_sle_eq)
qed

lemma push_len_nonneg:
  assumes "0 \<le>s len bs" and "k \<le> unat (len bs)"
  shows "0 \<le>s len bs - word_of_nat k"
proof -
  have k: "unat (word_of_nat k :: 32 word) = k"
    using assms by (simp add: len_nonneg_iff unat_of_nat)
  then have "(word_of_nat k :: 32 word) \<le> len bs" using assms(2) by (simp add: word_le_nat_alt)
  then have "unat (len bs - word_of_nat k) = unat (len bs) - k" using k by (simp add: unat_sub)
  then show ?thesis using assms(1) by (simp add: len_nonneg_iff)
qed

lemma pump_push_len_nonneg:
  assumes "0 \<le>s len bs" shows "0 \<le>s len (pump_push n bs)"
  using assms push_len_nonneg[of "count_reads SPI_CS 1 bs" "min n (unat (len bs))"]
  by (simp add: pump_push_def Let_def push_bytes_def push_words_def word_sle_eq)

lemma drain_rx_len:
  assumes "drain_rx bs c = Some bs'" shows "len bs' = len bs"
proof (rule drain_rx.raw_induct[where P = "\<lambda>bs c bs'. len bs' = len bs", OF _ assms])
  fix drain :: "bcm2708_spi \<Rightarrow> u32 \<Rightarrow> bcm2708_spi option" and b d y
  assume ih: "\<And>b d y. drain b d = Some y \<Longrightarrow> len y = len b"
    and r: "(if d AND SPI_CS_RXD \<noteq> 0
             then drain (snd (bcm2708_rd (bcm2708_rd_fifo b 1) SPI_CS))
                        (fst (bcm2708_rd (bcm2708_rd_fifo b 1) SPI_CS))
             else Some b) = Some y"
  show "len y = len b"
  proof (cases "d AND SPI_CS_RXD \<noteq> 0")
    case True
    then have "len y = len (snd (bcm2708_rd (bcm2708_rd_fifo b 1) SPI_CS))"
      using r ih by simp
    then show ?thesis by (simp add: rd_status rd_fifo_pull)
  next
    case False
    then show ?thesis using r by simp
  qed
qed

lemma interrupt_len_nonneg:
  assumes "0 \<le>s len bs" and "bcm2708_spi_interrupt bs = Some bs'"
  shows "0 \<le>s len bs'"
proof -
  have s16: "0 \<le>s (16 :: s32)" and s12: "0 \<le>s (12 :: s32)"
    by (simp_all add: word_sle_eq)
  have a: "bcm2708_wr_fifo (count_reads SPI_CS 1 bs) 16 =
           Some (pump_push 16 (count_reads SPI_CS 1 bs))"
    using wr_fifo_pump[of "count_reads SPI_CS 1 bs" 16] assms(1) s16 by simp
  have c: "bcm2708_wr_fifo (pull_bytes 12 (count_reads SPI_CS 1 bs)) 12 =
           Some (pump_push 12 (pull_bytes 12 (count_reads SPI_CS 1 bs)))"
    using wr_fifo_pump[of "pull_bytes 12 (count_reads SPI_CS 1 bs)" 12] assms(1) s12 by simp
  have pa: "0 \<le>s len (pump_push 16 (count_reads SPI_CS 1 bs))"
    using assms(1) by (intro pump_push_len_nonneg) simp
  have pc: "0 \<le>s len (pump_push 12 (pull_bytes 12 (count_reads SPI_CS 1 bs)))"
    using assms(1) by (intro pump_push_len_nonneg) simp
  show ?thesis
    using assms a c pa pc
    by (auto simp: bcm2708_spi_interrupt_def rd_status Let_def rd_fifo_pull complete_def
        bcm2708_wr_def split: if_splits option.splits dest!: drain_rx_len)
qed

lemma arm_len_nonneg: "unat (x_len xfer) < 2 ^ 31 \<Longrightarrow> 0 \<le>s len (arm bs xfer stp)"
  by (simp add: arm_def Let_def bcm2708_wr_def len_nonneg_iff)

subsection \<open>The worker returns, in queue order\<close>

lemma ctl_frame_refl [simp]: "ctl_frame bs bs"
  by (simp add: ctl_frame_def)

lemma ctl_frame_trans: "ctl_frame a b \<Longrightarrow> ctl_frame b c \<Longrightarrow> ctl_frame a c"
  by (simp add: ctl_frame_def)

lemma ctl_frame_steps [simp]:
  "ctl_frame a (count_reads r k b) = ctl_frame a b"
  "ctl_frame a (pull_bytes k b) = ctl_frame a b"
  "ctl_frame a (push_bytes k b) = ctl_frame a b"
  "ctl_frame a (push_words k b) = ctl_frame a b"
  "ctl_frame a (bcm2708_wr b r v) = ctl_frame a b"
  "ctl_frame a (complete b) = ctl_frame a b"
  "ctl_frame a (b\<lparr> len := l \<rparr>) = ctl_frame a b"
  "ctl_frame a (b\<lparr> done_cnt := d \<rparr>) = ctl_frame a b"
  "ctl_frame a (b\<lparr> waits := w \<rparr>) = ctl_frame a b"
  by (simp_all add: ctl_frame_def count_reads_def pull_bytes_def push_bytes_def
      push_words_def bcm2708_wr_def complete_def)

lemma wr_fifo_returns: "\<exists>bs'. bcm2708_wr_fifo bs n = Some bs' \<and> ctl_frame bs bs'"
proof -
  define n' where "n' = (if len bs <s n then len bs else n)"
  define bs1 where "bs1 = count_reads SPI_CS 1 bs"
  have words: "even (unat n') \<Longrightarrow> wr_fifo_words bs1 n' = Some (push_words (unat n') bs1)"
    using wr_fifo_words_push[of 0 n' bs1] by (simp add: push_words_0)
  have eq: "bcm2708_wr_fifo bs n =
      (if status_word bs 0 AND SPI_CS_LEN \<noteq> 0
       then if odd (sint n') then Some (bs1\<lparr> len := 0 \<rparr>) else wr_fifo_words bs1 n'
       else Some (wr_fifo_bytes bs1 n'))"
    unfolding bcm2708_wr_fifo_def Let_def rd_status fst_conv snd_conv n'_def bs1_def ..
  show ?thesis
    unfolding eq using words
    by (auto simp: odd_sint_unat wr_fifo_bytes_push bs1_def)
qed

lemma rx_fifo_empties_status:
  "rx_fifo_empties bs \<Longrightarrow> \<exists>j. status_word bs j AND SPI_CS_RXD = 0"
  by (simp add: rx_fifo_empties_def status_word_def)

lemma rx_fifo_empties_frame: "ctl_frame a b \<Longrightarrow> rx_fifo_empties b = rx_fifo_empties a"
  by (simp add: rx_fifo_empties_def ctl_frame_def)

lemma drain_rx_returns:
  assumes "\<exists>j. status_word bs j AND SPI_CS_RXD = 0"
  shows "\<exists>k. drain_rx bs c = Some (count_reads SPI_CS k (pull_bytes k bs))"
proof (cases "c AND SPI_CS_RXD = 0")
  case True
  then have "drain_rx bs c = Some (count_reads SPI_CS 0 (pull_bytes 0 bs))"
    by (intro drain_rx_run) auto
  then show ?thesis by blast
next
  case False
  define j where "j = (LEAST j. status_word bs j AND SPI_CS_RXD = 0)"
  have clr: "status_word bs j AND SPI_CS_RXD = 0"
    unfolding j_def using assms by (rule LeastI_ex)
  have set: "i < j \<Longrightarrow> status_word bs i AND SPI_CS_RXD \<noteq> 0" for i
    unfolding j_def by (rule not_less_Least)
  have "drain_rx bs c = Some (count_reads SPI_CS (Suc j) (pull_bytes (Suc j) bs))"
    using False clr set by (intro drain_rx_run) auto
  then show ?thesis by blast
qed

lemma interrupt_returns:
  assumes "rx_fifo_empties bs"
  shows "\<exists>bs'. bcm2708_spi_interrupt bs = Some bs' \<and> ctl_frame bs bs'"
proof -
  define c where "c = status_word bs 0"
  define bs1 where "bs1 = count_reads SPI_CS 1 bs"
  define c' where "c' = c AND NOT (SPI_CS_INTR OR SPI_CS_INTD)"
  define bs2 where "bs2 = bcm2708_wr bs1 SPI_CS c'"
  have eq: "bcm2708_spi_interrupt bs =
      (if c AND SPI_CS_DONE \<noteq> 0 then
         (if len bs1 \<noteq> 0 then bcm2708_wr_fifo bs1 16
          else case drain_rx bs2 c' of None \<Rightarrow> None | Some bs3 \<Rightarrow> Some (complete bs3))
       else if c AND SPI_CS_RXR \<noteq> 0 then bcm2708_wr_fifo (pull_bytes 12 bs1) 12
       else Some bs1)"
    unfolding bcm2708_spi_interrupt_def Let_def rd_status fst_conv snd_conv
      c_def bs1_def c'_def bs2_def
    by (simp add: rd_fifo_pull)
  have f1: "ctl_frame bs bs1" by (simp add: bs1_def)
  have f2: "ctl_frame bs bs2" by (simp add: bs2_def bs1_def)
  have "rx_fifo_empties bs2" using assms f2 by (simp add: rx_fifo_empties_frame)
  then obtain k where dr: "drain_rx bs2 c' = Some (count_reads SPI_CS k (pull_bytes k bs2))"
    using drain_rx_returns[OF rx_fifo_empties_status] by blast
  obtain a where a: "bcm2708_wr_fifo bs1 16 = Some a" "ctl_frame bs1 a"
    using wr_fifo_returns by blast
  obtain b where b: "bcm2708_wr_fifo (pull_bytes 12 bs1) 12 = Some b"
      "ctl_frame (pull_bytes 12 bs1) b"
    using wr_fifo_returns by blast
  have fa: "ctl_frame bs a" using f1 a(2) by (rule ctl_frame_trans)
  have "ctl_frame bs (pull_bytes 12 bs1)" by (simp add: bs1_def)
  then have fb: "ctl_frame bs b" using b(2) by (rule ctl_frame_trans)
  show ?thesis
    unfolding eq using dr a(1) b(1) fa fb f1 f2 by simp
qed

lemma wait_returns:
  assumes "rx_fifo_empties bs"
  shows "\<exists>r bs'. wait_for_completion_timeout n bs = Some (r, bs') \<and> ctl_frame bs bs'"
  using assms
proof (induction n arbitrary: bs)
  case 0
  then show ?case by auto
next
  case (Suc n)
  show ?case
  proof (cases "0 < done_cnt bs")
    case True
    then show ?thesis by auto
  next
    case False
    obtain bs1 where i: "bcm2708_spi_interrupt bs = Some bs1" "ctl_frame bs bs1"
      using interrupt_returns[OF Suc.prems] by blast
    then have "rx_fifo_empties bs1" using Suc.prems by (simp add: rx_fifo_empties_frame)
    from Suc.IH[OF this] obtain r bs' where
      w: "wait_for_completion_timeout n bs1 = Some (r, bs')" "ctl_frame bs1 bs'"
      by blast
    have "ctl_frame bs bs'" using i(2) w(2) by (rule ctl_frame_trans)
    then show ?thesis using False i(1) w(1) by simp
  qed
qed

lemma arm_frame [simp]: "ctl_frame a (arm b xfer stp) = ctl_frame a b"
  by (simp add: arm_def Let_def ctl_frame_def bcm2708_wr_def)

lemma process_transfer_returns:
  assumes "rx_fifo_empties bs" and "xfer_state (clk bs) (spi msg) xfer \<noteq> None"
  shows "\<exists>st bs' a. bcm2708_process_transfer bs msg xfer l =
            Some (st, bs', msg\<lparr> actual_length := a \<rparr>) \<and> ctl_frame bs bs'"
proof (cases "stopping bs")
  case True
  then have "bcm2708_process_transfer bs msg xfer l = Some (Some ShuttingDown, bs, msg)"
    by (simp add: bcm2708_process_transfer_def)
  then show ?thesis
    by (intro exI[of _ "Some ShuttingDown"] exI[of _ bs] exI[of _ "actual_length msg"]) simp
next
  case False
  from assms(2) obtain s where s: "xfer_state (clk bs) (spi msg) xfer = Some s" by blast
  show ?thesis
  proof (cases s)
    case (Inl e)
    have "bcm2708_process_transfer bs msg xfer l = Some (Some e, bs, msg)"
      using False s Inl by (simp add: bcm2708_process_transfer_def)
    then show ?thesis
      by (intro exI[of _ "Some e"] exI[of _ bs] exI[of _ "actual_length msg"]) simp
  next
    case (Inr stp)
    define bs1 where "bs1 = arm bs xfer stp"
    define bs2 where "bs2 = bs1\<lparr> waits := Suc (waits bs1) \<rparr>"
    have f2: "ctl_frame bs bs2" by (simp add: bs2_def bs1_def)
    then have "rx_fifo_empties bs2" using assms(1) by (simp add: rx_fifo_empties_frame)
    from wait_returns[OF this] obtain r bs3 where
      w: "wait_for_completion_timeout (irqs bs1 (waits bs1) SPI_TIMEOUT_MS) bs2 = Some (r, bs3)"
         "ctl_frame bs2 bs3"
      by blast
    have f3: "ctl_frame bs bs3" using f2 w(2) by (rule ctl_frame_trans)
    have eq: "bcm2708_process_transfer bs msg xfer l =
       (case wait_for_completion_timeout (irqs bs1 (waits bs1) SPI_TIMEOUT_MS) bs2 of
          None \<Rightarrow> None
        | Some (False, bs3) \<Rightarrow> Some (Some Timeout, bs3, msg)
        | Some (True, bs3) \<Rightarrow>
            (let bs4 = (if l \<or> x_cs_change xfer then bcm2708_wr bs3 SPI_CS (cs stp) else bs3)
             in Some (None, bs4,
                  msg\<lparr> actual_length := actual_length msg + (x_len xfer - len bs4) \<rparr>)))"
      using False s Inr by (simp add: bcm2708_process_transfer_def Let_def bs1_def bs2_def)
    show ?thesis
    proof (cases r)
      case True
      then show ?thesis unfolding eq w(1) using f3 by (auto simp: Let_def)
    next
      case False
      have "bcm2708_process_transfer bs msg xfer l = Some (Some Timeout, bs3, msg)"
        unfolding eq w(1) using False by simp
      then show ?thesis using f3
        by (intro exI[of _ "Some Timeout"] exI[of _ bs3] exI[of _ "actual_length msg"]) simp
    qed
  qed
qed

lemma xfer_loop_trace:
  assumes "rx_fifo_empties bs"
    and "\<forall>x \<in> set xs. xfer_state (clk bs) (spi msg) x \<noteq> None"
    and "xs \<noteq> []"
  shows "\<exists>st' bs' a evs.
           xfer_loop bs msg xs st = Some (st', bs', msg\<lparr> actual_length := a \<rparr>) \<and>
           ctl_frame (bs\<lparr> events := events bs' \<rparr>) bs' \<and>
           events bs' = events bs @ evs \<and>
           (\<forall>m fin rest. cb_context m = cb_context msg \<longrightarrow> status fin = st' \<longrightarrow>
              cb_context fin = cb_context m \<longrightarrow> transfers fin = transfers m \<longrightarrow>
              msg_events m xs None (evs @ Callback fin # rest) = Some rest)"
  using assms
proof (induction xs arbitrary: bs msg st)
  case Nil
  then show ?case by simp
next
  case (Cons x xs)
  have "xfer_state (clk bs) (spi msg) x \<noteq> None" using Cons.prems(2) by simp
  from process_transfer_returns[OF Cons.prems(1) this, of "xs = []"]
  obtain st1 bs1 a1 where
    p: "bcm2708_process_transfer bs msg x (xs = []) = Some (st1, bs1, msg\<lparr> actual_length := a1 \<rparr>)"
    and f1: "ctl_frame bs bs1"
    by blast
  define ev where "ev = Processed (cb_context msg) x st1"
  define bs2 where "bs2 = bs1\<lparr> events := events bs1 @ [ev] \<rparr>"
  define msg1 where "msg1 = msg\<lparr> actual_length := a1 \<rparr>"
  have e2: "events bs2 = events bs @ [ev]"
    using f1 by (simp add: bs2_def ctl_frame_def)
  have f2: "ctl_frame (bs\<lparr> events := events bs2 \<rparr>) bs2"
    using f1 by (simp add: bs2_def ctl_frame_def)
  have step: "xfer_loop bs msg (x # xs) st =
      (if st1 \<noteq> None then Some (st1, bs2, msg1) else xfer_loop bs2 msg1 xs st1)"
    using p by (simp add: Let_def bs2_def msg1_def ev_def)
  show ?case
  proof (cases "st1 \<noteq> None \<or> xs = []")
    case True
    then have r: "xfer_loop bs msg (x # xs) st = Some (st1, bs2, msg\<lparr> actual_length := a1 \<rparr>)"
      unfolding step by (auto simp: msg1_def)
    have "\<forall>m fin rest. cb_context m = cb_context msg \<longrightarrow> status fin = st1 \<longrightarrow>
              cb_context fin = cb_context m \<longrightarrow> transfers fin = transfers m \<longrightarrow>
              msg_events m (x # xs) None ([ev] @ Callback fin # rest) = Some rest"
      using True by (auto simp: ev_def)
    then show ?thesis using r f2 e2 by blast
  next
    case False
    then have st1: "st1 = None" and ne: "xs \<noteq> []" by auto
    have re: "rx_fifo_empties bs2"
      using Cons.prems(1) f1 by (simp add: rx_fifo_empties_def bs2_def ctl_frame_def)
    have cf: "\<forall>y \<in> set xs. xfer_state (clk bs2) (spi msg1) y \<noteq> None"
      using Cons.prems(2) f1 by (simp add: bs2_def msg1_def ctl_frame_def)
    from Cons.IH[OF re cf ne, of st1] obtain st' bs' a evs where
      ih: "xfer_loop bs2 msg1 xs st1 = Some (st', bs', msg1\<lparr> actual_length := a \<rparr>)"
          "ctl_frame (bs2\<lparr> events := events bs' \<rparr>) bs'"
          "events bs' = events bs2 @ evs"
          "\<forall>m fin rest. cb_context m = cb_context msg1 \<longrightarrow> status fin = st' \<longrightarrow>
              cb_context fin = cb_context m \<longrightarrow> transfers fin = transfers m \<longrightarrow>
              msg_events m xs None (evs @ Callback fin # rest) = Some rest"
      by blast
    have r: "xfer_loop bs msg (x # xs) st = Some (st', bs', msg\<lparr> actual_length := a \<rparr>)"
      unfolding step using st1 ih(1) by (simp add: msg1_def)
    have f: "ctl_frame (bs\<lparr> events := events bs' \<rparr>) bs'"
      using ih(2) f2 by (simp add: ctl_frame_def)
    have e: "events bs' = events bs @ (ev # evs)" using ih(3) e2 by simp
    have "\<forall>m fin rest. cb_context m = cb_context msg \<longrightarrow> status fin = st' \<longrightarrow>
              cb_context fin = cb_context m \<longrightarrow> transfers fin = transfers m \<longrightarrow>
              msg_events m (x # xs) None ((ev # evs) @ Callback fin # rest) = Some rest"
      using ih(4) st1 by (simp add: ev_def msg1_def)
    then show ?thesis using r f e by blast
  qed
qed

lemma run_message_trace:
  assumes "rx_fifo_empties bs" and "configured bs msg" and "transfers msg \<noteq> []"
  shows "\<exists>st' bs' evs.
           run_message bs msg (transfers msg) st = Some (st', bs') \<and>
           ctl_frame (bs\<lparr> events := events bs' \<rparr>) bs' \<and>
           events bs' = events bs @ evs \<and>
           (\<forall>rest. msg_events msg (transfers msg) None (evs @ rest) = Some rest)"
proof -
  have "\<forall>x \<in> set (transfers msg). xfer_state (clk bs) (spi msg) x \<noteq> None"
    using assms(2) by (simp add: configured_def)
  from xfer_loop_trace[OF assms(1) this assms(3), of st] obtain st' bs1 a evs where
    x: "xfer_loop bs msg (transfers msg) st = Some (st', bs1, msg\<lparr> actual_length := a \<rparr>)"
       "ctl_frame (bs\<lparr> events := events bs1 \<rparr>) bs1"
       "events bs1 = events bs @ evs"
       "\<forall>m fin rest. cb_context m = cb_context msg \<longrightarrow> status fin = st' \<longrightarrow>
          cb_context fin = cb_context m \<longrightarrow> transfers fin = transfers m \<longrightarrow>
          msg_events m (transfers msg) None (evs @ Callback fin # rest) = Some rest"
    by blast
  define fin where "fin = msg\<lparr> actual_length := a, status := st' \<rparr>"
  define bs' where "bs' = bs1\<lparr> events := events bs1 @ [Callback fin] \<rparr>"
  have r: "run_message bs msg (transfers msg) st = Some (st', bs')"
    using x(1) by (simp add: run_message_def bs'_def fin_def)
  have f: "ctl_frame (bs\<lparr> events := events bs' \<rparr>) bs'"
    using x(2) by (simp add: bs'_def ctl_frame_def)
  have e: "events bs' = events bs @ (evs @ [Callback fin])"
    using x(3) by (simp add: bs'_def)
  have "\<forall>rest. msg_events msg (transfers msg) None ((evs @ [Callback fin]) @ rest) = Some rest"
    using x(4) by (simp add: fin_def)
  then show ?thesis using r f e by blast
qed

lemma work_loop_trace:
  assumes "rx_fifo_empties bs"
    and "\<forall>m \<in> set (queue bs). transfers m \<noteq> [] \<and> configured bs m"
  shows "\<exists>bs' evs. work_loop bs st = Some bs' \<and> queue bs' = [] \<and>
           events bs' = events bs @ evs \<and> worker_trace (queue bs) evs"
  using assms
proof (induction "queue bs" arbitrary: bs st)
  case Nil
  then have "work_loop bs st = Some bs" by (subst work_loop.simps) simp
  then show ?case using Nil.hyps by (intro exI[of _ bs] exI[of _ "[]"]) simp
next
  case (Cons m q)
  define bs0 where "bs0 = bs\<lparr> queue := q \<rparr>"
  have q: "queue bs = m # q" using Cons.hyps(2) by simp
  have re0: "rx_fifo_empties bs0" using Cons.prems(1) by (simp add: rx_fifo_empties_def bs0_def)
  have m: "transfers m \<noteq> []" "configured bs0 m"
    using Cons.prems(2) q by (simp_all add: bs0_def configured_def)
  from run_message_trace[OF re0 m(2) m(1), of st] obtain st' bs1 evs where
    r: "run_message bs0 m (transfers m) st = Some (st', bs1)"
       "ctl_frame (bs0\<lparr> events := events bs1 \<rparr>) bs1"
       "events bs1 = events bs0 @ evs"
       "\<forall>rest. msg_events m (transfers m) None (evs @ rest) = Some rest"
    by blast
  have step: "work_loop bs st = work_loop bs1 st'"
    using q r(1) by (subst work_loop.simps) (simp add: bs0_def)
  have q1: "q = queue bs1" using r(2) by (simp add: ctl_frame_def bs0_def)
  have re1: "rx_fifo_empties bs1"
    using re0 r(2) by (simp add: rx_fifo_empties_def ctl_frame_def)
  have c1: "\<forall>m \<in> set (queue bs1). transfers m \<noteq> [] \<and> configured bs1 m"
    using Cons.prems(2) q q1 r(2) by (simp add: configured_def ctl_frame_def bs0_def)
  from Cons.hyps(1)[OF q1 re1 c1, of st'] obtain bs' evs' where
    ih: "work_loop bs1 st' = Some bs'" "queue bs' = []" "events bs' = events bs1 @ evs'"
        "worker_trace (queue bs1) evs'"
    by blast
  have e: "events bs' = events bs @ (evs @ evs')"
    using ih(3) r(3) by (simp add: bs0_def)
  have "worker_trace (queue bs) (evs @ evs')"
    using r(4) ih(4) q q1 by simp
  then show ?case using step ih(1,2) e
    by (intro exI[of _ bs'] exI[of _ "evs @ evs'"]) simp
qed

lemma process_transfer_timeout:
  assumes "\<not> stopping b" and "xfer_state (clk b) (spi m) x = Some (Inr stp)"
    and "wait_for_completion_timeout (irqs b (waits b) SPI_TIMEOUT_MS)
           ((arm b x stp)\<lparr> waits := Suc (waits b) \<rparr>) = Some (False, b')"
  shows "bcm2708_process_transfer b m x l = Some (Some Timeout, b', m)"
proof -
  have "irqs (arm b x stp) = irqs b" "waits (arm b x stp) = waits b"
    by (simp_all add: arm_def Let_def bcm2708_wr_def)
  then show ?thesis using assms by (simp add: bcm2708_process_transfer_def Let_def)
qed

text \<open>
  The worker on configured queues.  When the device clears the receive-FIFO-has-data flag
  again and again, and every queued message has at least one transfer and a configuration
  for each, the worker returns with an empty queue, and the events it adds to the trace are
  those of the queued messages in queue order: for each message its transfers in list
  order, none after the first that fails, then one callback with the status of the last
  transfer processed.  A transfer that is armed and whose wait ends without a completion
  within the \<open>SPI_TIMEOUT_MS\<close> budget returns \<open>Timeout\<close> and leaves the message as it
  was.
\<close>

lemma worker_fifo_order_configured:
  assumes "rx_fifo_empties bs"
    and "\<forall>m \<in> set (queue bs). transfers m \<noteq> [] \<and> configured bs m"
  shows "(\<exists>bs' evs. bcm2708_work bs = Some bs' \<and> queue bs' = [] \<and>
            events bs' = events bs @ evs \<and> worker_trace (queue bs) evs) \<and>
         (\<forall>b m x l stp b'.
            \<not> stopping b \<longrightarrow> xfer_state (clk b) (spi m) x = Some (Inr stp) \<longrightarrow>
            wait_for_completion_timeout (irqs b (waits b) SPI_TIMEOUT_MS)
              ((arm b x stp)\<lparr> waits := Suc (waits b) \<rparr>) = Some (False, b') \<longrightarrow>
            bcm2708_process_transfer b m x l = Some (Some Timeout, b', m)) \<and>
         SPI_TIMEOUT_MS = 150"
  using work_loop_trace[OF assms, of None] process_transfer_timeout
  by (simp add: bcm2708_work_def SPI_TIMEOUT_MS_def)

text \<open>
  A device that raises no interrupt.  The first transfer of the first message times out
  and the second is not processed; the second message fails in the resolver.
\<close>

lemma worker_fifo_order_example:
  "rx_fifo_empties (idle_controller\<lparr> queue :=
      [message_of 1 plain_peer [plain_transfer, plain_transfer],
       message_of 2 plain_peer [plain_transfer\<lparr> x_bits_per_word := 16 \<rparr>]] \<rparr>) \<and>
   map_option events (bcm2708_work (idle_controller\<lparr> queue :=
      [message_of 1 plain_peer [plain_transfer, plain_transfer],
       message_of 2 plain_peer [plain_transfer\<lparr> x_bits_per_word := 16 \<rparr>]] \<rparr>)) =
   Some [Processed 1 plain_transfer (Some Timeout),
         Callback ((message_of 1 plain_peer [plain_transfer, plain_transfer])
                     \<lparr> status := Some Timeout \<rparr>),
         Processed 2 (plain_transfer\<lparr> x_bits_per_word := 16 \<rparr>) (Some InvalidWordWidth),
         Callback ((message_of 2 plain_peer [plain_transfer\<lparr> x_bits_per_word := 16 \<rparr>])
                     \<lparr> status := Some InvalidWordWidth \<rparr>)] \<and>
   worker_trace
     [message_of 1 plain_peer [plain_transfer, plain_transfer],
      message_of 2 plain_peer [plain_transfer\<lparr> x_bits_per_word := 16 \<rparr>]]
     [Processed 1 plain_transfer (Some Timeout),
      Callback ((message_of 1 plain_peer [plain_transfer, plain_transfer])
                  \<lparr> status := Some Timeout \<rparr>),
      Processed 2 (plain_transfer\<lparr> x_bits_per_word := 16 \<rparr>) (Some InvalidWordWidth),
      Callback ((message_of 2 plain_peer [plain_transfer\<lparr> x_bits_per_word := 16 \<rparr>])
                  \<lparr> status := Some InvalidWordWidth \<rparr>)]"
proof -
  define X where "X = idle_controller\<lparr> queue :=
      [message_of 1 plain_peer [plain_transfer, plain_transfer],
       message_of 2 plain_peer [plain_transfer\<lparr> x_bits_per_word := 16 \<rparr>]] \<rparr>"
  define L where "L =
     [Processed 1 plain_transfer (Some Timeout),
      Callback ((message_of 1 plain_peer [plain_transfer, plain_transfer])
                  \<lparr> status := Some Timeout \<rparr>),
      Processed 2 (plain_transfer\<lparr> x_bits_per_word := 16 \<rparr>) (Some InvalidWordWidth),
      Callback ((message_of 2 plain_peer [plain_transfer\<lparr> x_bits_per_word := 16 \<rparr>])
                  \<lparr> status := Some InvalidWordWidth \<rparr>)]"
  have h1: "rx_fifo_empties X"
    by (simp add: X_def rx_fifo_empties_def idle_controller_def)
  have h2: "\<forall>m \<in> set (queue X). transfers m \<noteq> [] \<and> configured X m"
    by (simp add: X_def configured_def xfer_state_def message_of_def plain_peer_def
        plain_transfer_def)
  from worker_fifo_order_configured[OF h1 h2] obtain bs' evs where
    r: "bcm2708_work X = Some bs'" "events bs' = events X @ evs" "worker_trace (queue X) evs"
    by blast
  have ev: "map_option events (bcm2708_work X) = Some L"
    unfolding X_def L_def
    by (simp add: bcm2708_work_def work_loop.simps run_message_def
      bcm2708_process_transfer_def xfer_state_def arm_def bcm2708_wr_def Let_def
      idle_controller_def plain_peer_def plain_transfer_def message_of_def
      bcm2708_setup_state_def setup_cdiv_def setup_bpw_def setup_mode_def
      DIV_ROUND_UP_def roundup_pow_of_two_def pow2_from.simps word_le_nat_alt mode_bits
      SPI_TIMEOUT_MS_def)
  have "events X = []" by (simp add: X_def idle_controller_def)
  then have "evs = L" using r(1,2) ev by simp
  then have "worker_trace (queue X) L" using r(3) by simp
  moreover have "queue X = [message_of 1 plain_peer [plain_transfer, plain_transfer],
       message_of 2 plain_peer [plain_transfer\<lparr> x_bits_per_word := 16 \<rparr>]]"
    by (simp add: X_def)
  ultimately show ?thesis using h1 ev unfolding X_def L_def by simp
qed

subsection \<open>The worker and a peer without a configuration\<close>

text \<open>
  Claim C3.  The claim says that the worker invokes the completion callback of every
  queued message exactly once.  The code does not: on a controller that is not stopping,
  when the message at the head of the queue starts with a transfer that has neither a
  width nor a speed override and the peer's \<open>controller_state\<close> is null,
  \<open>bcm2708_process_transfer\<close> dereferences the null pointer at line 326 and the worker
  does not return: no transfer is processed, no callback is invoked, and the messages
  behind it are never taken off the queue.
\<close>

theorem worker_null_configuration:
  assumes "\<not> stopping bs" and "queue bs = m # q" and "transfers m = x # xs"
    and "x_bits_per_word x = 0" and "x_speed_hz x = 0"
    and "controller_state (spi m) = None"
  shows "bcm2708_work bs = None"
  unfolding bcm2708_work_def using assms
  by (subst work_loop.simps)
     (simp add: run_message_def bcm2708_process_transfer_def xfer_state_def)

text \<open>
  Claim C3: how the driver gets there.  A peer that was set up with 8-bit words asks for
  7-bit words: \<open>bcm2708_spi_setup\<close> fails in the resolver, frees the configuration and
  leaves \<open>controller_state\<close> null (lines 409-413).  A message of one transfer without
  overrides for this peer passes every check of \<open>bcm2708_spi_transfer\<close>, which never
  looks at \<open>controller_state\<close>, and is queued.  The worker then does not return.
\<close>

theorem worker_null_configuration_witness:
  "bcm2708_spi_setup idle_controller True (plain_peer\<lparr> bits_per_word := 7 \<rparr>) =
     (Some InvalidWordWidth, plain_peer\<lparr> bits_per_word := 7, controller_state := None \<rparr>) \<and>
   bcm2708_spi_transfer idle_controller
       (plain_peer\<lparr> bits_per_word := 7, controller_state := None \<rparr>)
       (message_of 1 (plain_peer\<lparr> bits_per_word := 7, controller_state := None \<rparr>)
          [plain_transfer]) =
     (None, idle_controller\<lparr> queue :=
        [(message_of 1 (plain_peer\<lparr> bits_per_word := 7, controller_state := None \<rparr>)
            [plain_transfer])\<lparr> status := Some InProgress \<rparr>], work_pending := True \<rparr>) \<and>
   \<not> stopping (idle_controller\<lparr> queue :=
        [(message_of 1 (plain_peer\<lparr> bits_per_word := 7, controller_state := None \<rparr>)
            [plain_transfer])\<lparr> status := Some InProgress \<rparr>], work_pending := True \<rparr>) \<and>
   bcm2708_work (idle_controller\<lparr> queue :=
        [(message_of 1 (plain_peer\<lparr> bits_per_word := 7, controller_state := None \<rparr>)
            [plain_transfer])\<lparr> status := Some InProgress \<rparr>], work_pending := True \<rparr>) = None"
proof -
  define D where "D = plain_peer\<lparr> bits_per_word := 7, controller_state := None \<rparr>"
  define M where "M = (message_of 1 D [plain_transfer])\<lparr> status := Some InProgress \<rparr>"
  define B where "B = idle_controller\<lparr> queue := [M], work_pending := True \<rparr>"
  have s: "bcm2708_spi_setup idle_controller True (plain_peer\<lparr> bits_per_word := 7 \<rparr>) =
             (Some InvalidWordWidth, D)"
    by (simp add: D_def bcm2708_spi_setup_def idle_controller_def plain_peer_def
        num_chipselect_def bcm2708_setup_state_def setup_cdiv_def setup_bpw_def
        DIV_ROUND_UP_def roundup_pow_of_two_def pow2_from.simps word_le_nat_alt mode_bits)
  have t: "bcm2708_spi_transfer idle_controller D (message_of 1 D [plain_transfer]) =
             (None, B)"
    by (simp add: B_def M_def bcm2708_spi_transfer_def message_of_def plain_transfer_def
        idle_controller_def)
  have n: "\<not> stopping B" by (simp add: B_def idle_controller_def)
  have w: "bcm2708_work B = None"
    using worker_null_configuration[of B M "[]" plain_transfer "[]"]
    by (simp add: B_def M_def D_def message_of_def plain_transfer_def idle_controller_def)
  from s t n w show ?thesis unfolding B_def M_def D_def by simp
qed

subsection \<open>The worker after shutdown\<close>

lemma run_message_stopping:
  assumes "stopping bs"
  shows "run_message bs msg (x # xs) st =
           Some (Some ShuttingDown, bs\<lparr> events := events bs @ shutdown_events msg x \<rparr>)"
  using assms
  by (simp add: run_message_def bcm2708_process_transfer_def shutdown_events_def)

lemma work_loop_stopping:
  assumes "stopping bs" and "\<forall>m \<in> set (queue bs). transfers m \<noteq> []"
  shows "work_loop bs st =
           Some (bs\<lparr> queue := [],
                     events := events bs @
                       concat (map (\<lambda>m. shutdown_events m (hd (transfers m))) (queue bs)) \<rparr>)"
  using assms
proof (induction "queue bs" arbitrary: bs st)
  case Nil
  then have "work_loop bs st = Some bs" by (subst work_loop.simps) simp
  moreover have "bs\<lparr> queue := [], events := events bs @ [] \<rparr> = bs"
    using Nil.hyps by simp
  ultimately show ?case using Nil.hyps by simp
next
  case (Cons m q)
  have q: "queue bs = m # q" using Cons.hyps(2) by simp
  then obtain x xs where t: "transfers m = x # xs"
    using Cons.prems(2) by (cases "transfers m") auto
  define bs1 where "bs1 = bs\<lparr> queue := q, events := events bs @ shutdown_events m x \<rparr>"
  have "run_message (bs\<lparr> queue := q \<rparr>) m (transfers m) st = Some (Some ShuttingDown, bs1)"
    using Cons.prems(1) by (simp add: t run_message_stopping bs1_def)
  then have step: "work_loop bs st = work_loop bs1 (Some ShuttingDown)"
    using q by (subst work_loop.simps) simp
  have "q = queue bs1" "stopping bs1" "\<forall>m \<in> set (queue bs1). transfers m \<noteq> []"
    using Cons.prems q by (simp_all add: bs1_def)
  from Cons.hyps(1)[OF this, of "Some ShuttingDown"] show ?case
    unfolding step by (simp add: bs1_def q t)
qed

text \<open>
  Claim C10.  Once the stopping flag is set, the remaining transfers \<open>x # xs\<close> of a
  message, whatever was done of it before, end at \<open>x\<close> with \<open>ShuttingDown\<close>: the
  controller and the device are left as they are, and the trace gets the failed transfer
  and one callback with the status \<open>ShuttingDown\<close>.  The worker then empties a queue
  of messages with at least one transfer in the same way, message after message.
\<close>

theorem worker_after_shutdown:
  assumes "stopping bs"
  shows "run_message bs msg (x # xs) st =
           Some (Some ShuttingDown, bs\<lparr> events := events bs @ shutdown_events msg x \<rparr>) \<and>
         ((\<forall>m \<in> set (queue bs). transfers m \<noteq> []) \<longrightarrow>
          bcm2708_work bs =
            Some (bs\<lparr> queue := [],
                      events := events bs @
                        concat (map (\<lambda>m. shutdown_events m (hd (transfers m))) (queue bs)) \<rparr>))"
  using run_message_stopping[OF assms] work_loop_stopping[OF assms]
  by (simp add: bcm2708_work_def)

text \<open>
  Claim C10: after the locked section of \<open>bcm2708_spi_remove\<close>, a message that had
  moved 3 bytes and a queued message both end with \<open>ShuttingDown\<close>, and the only
  register write is the one of the shutdown.
\<close>

theorem worker_after_shutdown_witness:
  "stopping (bcm2708_spi_remove (done_device\<lparr> queue :=
      [message_of 2 plain_peer [plain_transfer, plain_transfer]] \<rparr>)) \<and>
   map_option (\<lambda>(st, b). (st, events b, wr_log b))
     (run_message (bcm2708_spi_remove (done_device\<lparr> queue :=
          [message_of 2 plain_peer [plain_transfer, plain_transfer]] \<rparr>))
        ((message_of 1 plain_peer [plain_transfer, plain_transfer])\<lparr> actual_length := 3 \<rparr>)
        [plain_transfer] None) =
     Some (Some ShuttingDown,
           [Processed 1 plain_transfer (Some ShuttingDown),
            Callback ((message_of 1 plain_peer [plain_transfer, plain_transfer])
                        \<lparr> actual_length := 3, status := Some ShuttingDown \<rparr>)],
           [(SPI_CS, SPI_CS_CLEAR_RX OR SPI_CS_CLEAR_TX)]) \<and>
   map_option (\<lambda>b. (queue b, events b, wr_log b))
     (bcm2708_work (bcm2708_spi_remove (done_device\<lparr> queue :=
          [message_of 2 plain_peer [plain_transfer, plain_transfer]] \<rparr>))) =
     Some ([],
           [Processed 2 plain_transfer (Some ShuttingDown),
            Callback ((message_of 2 plain_peer [plain_transfer, plain_transfer])
                        \<lparr> status := Some ShuttingDown \<rparr>)],
           [(SPI_CS, SPI_CS_CLEAR_RX OR SPI_CS_CLEAR_TX)])"
  using worker_after_shutdown[of "bcm2708_spi_remove (done_device\<lparr> queue :=
          [message_of 2 plain_peer [plain_transfer, plain_transfer]] \<rparr>)"
        "(message_of 1 plain_peer [plain_transfer, plain_transfer])\<lparr> actual_length := 3 \<rparr>"
        plain_transfer "[]" None]
  by (simp add: bcm2708_spi_remove_def bcm2708_wr_def done_device_def idle_controller_def
      shutdown_events_def message_of_def)

subsection \<open>Wide mode with an odd length\<close>

lemma interrupt_push:
  assumes "0 \<le>s len bs" and "status_word bs 0 AND SPI_CS_DONE \<noteq> 0" and "len bs \<noteq> 0"
  shows "bcm2708_spi_interrupt bs = Some (pump_push 16 (count_reads SPI_CS 1 bs))"
proof -
  have "0 \<le>s (16 :: s32)" by (simp add: word_sle_eq)
  then have "bcm2708_wr_fifo (count_reads SPI_CS 1 bs) 16 =
           Some (pump_push 16 (count_reads SPI_CS 1 bs))"
    using wr_fifo_pump[of "count_reads SPI_CS 1 bs" 16] assms(1) by simp
  then show ?thesis
    using assms(2,3) by (simp add: bcm2708_spi_interrupt_def rd_status Let_def)
qed

lemma wait_two_irqs:
  assumes "done_cnt bs = 0" and "bcm2708_spi_interrupt bs = Some b1" and "done_cnt b1 = 0"
    and "bcm2708_spi_interrupt b1 = Some b2" and "0 < done_cnt b2"
  shows "wait_for_completion_timeout 2 bs = Some (True, b2\<lparr> done_cnt := done_cnt b2 - 1 \<rparr>)"
  using assms by (simp add: numeral_2_eq_2)

lemma process_transfer_completes:
  assumes "\<not> stopping b" and "xfer_state (clk b) (spi m) x = Some (Inr stp)"
    and "wait_for_completion_timeout (irqs b (waits b) SPI_TIMEOUT_MS)
           ((arm b x stp)\<lparr> waits := Suc (waits b) \<rparr>) = Some (True, b')"
  shows "bcm2708_process_transfer b m x l =
           Some (None, (if l \<or> x_cs_change x then bcm2708_wr b' SPI_CS (cs stp) else b'),
                 m\<lparr> actual_length := actual_length m + (x_len x - len b') \<rparr>)"
proof -
  have "irqs (arm b x stp) = irqs b" "waits (arm b x stp) = waits b"
    by (simp_all add: arm_def Let_def bcm2708_wr_def)
  moreover have "len (bcm2708_wr b' SPI_CS (cs stp)) = len b'"
    by (simp add: bcm2708_wr_def)
  ultimately show ?thesis using assms
    by (simp add: bcm2708_process_transfer_def Let_def)
qed

text \<open>
  Claim C5 as stated fails: a 3-byte transfer in wide mode, on a device that reports
  "done", returns success and adds 3 to the actual length, and nothing was written to the
  FIFO register.
\<close>

theorem wide_odd_transfer_counterexample:
  "map_option (\<lambda>(st, b, m). (st, wr_log b, actual_length m))
     (bcm2708_process_transfer wide_device (message_of 1 wide_peer [plain_transfer])
        plain_transfer True) =
   Some (None,
         [(SPI_CLK, 256),
          (SPI_CS, SPI_CS_LEN OR SPI_CS_INTR OR SPI_CS_INTD OR SPI_CS_TA),
          (SPI_CS, (SPI_CS_DONE OR SPI_CS_LEN) AND NOT (SPI_CS_INTR OR SPI_CS_INTD)),
          (SPI_CS, SPI_CS_LEN)],
         3)"
proof -
  define stp where "stp = \<lparr> cs = SPI_CS_LEN, cdiv = 256 \<rparr>"
  define A where "A = (arm wide_device plain_transfer stp)\<lparr> waits := 1 \<rparr>"
  define B where "B = pump_push 16 (count_reads SPI_CS 1 A)"
  define C where "C = pump_finish 0 B"
  have W: "rd_in wide_device = (\<lambda>r k. if r = SPI_CS then SPI_CS_DONE OR SPI_CS_LEN else 0)"
      "irqs wide_device = (\<lambda>k ms. 2)" "waits wide_device = 0" "\<not> stopping wide_device"
      "wr_log wide_device = []"
    by (simp_all add: wide_device_def done_device_def idle_controller_def)
  have A: "rd_in A = rd_in wide_device" "len A = 3" "done_cnt A = 0"
      "wr_log A = [(SPI_CLK, 256),
                   (SPI_CS, SPI_CS_LEN OR SPI_CS_INTR OR SPI_CS_INTD OR SPI_CS_TA)]"
    by (simp_all add: A_def arm_def Let_def bcm2708_wr_def stp_def plain_transfer_def W(5))
  have sA: "status_word A j = SPI_CS_DONE OR SPI_CS_LEN" for j
    by (simp add: status_word_def A(1) W(1))
  have flags: "(SPI_CS_DONE OR SPI_CS_LEN) AND SPI_CS_DONE \<noteq> 0"
      "(SPI_CS_DONE OR SPI_CS_LEN) AND SPI_CS_LEN \<noteq> 0"
      "(SPI_CS_DONE OR SPI_CS_LEN) AND SPI_CS_RXD = 0"
    by (simp_all add: cs_bits)
  have i1: "bcm2708_spi_interrupt A = Some B"
    unfolding B_def by (rule interrupt_push) (simp_all add: A sA cs_bits word_sle_eq)
  have B: "rd_in B = rd_in wide_device" "len B = 0" "done_cnt B = 0" "wr_log B = wr_log A"
    by (simp_all add: B_def pump_push_def Let_def A sA cs_bits)
  have sB: "status_word B j = SPI_CS_DONE OR SPI_CS_LEN" for j
    by (simp add: status_word_def B(1) W(1))
  have i2: "bcm2708_spi_interrupt B = Some C"
    unfolding C_def by (rule interrupt_finish) (simp_all add: B sB cs_bits)
  have C: "done_cnt C = 1" "len C = 0"
      "wr_log C = wr_log A @ [(SPI_CS, (SPI_CS_DONE OR SPI_CS_LEN) AND NOT (SPI_CS_INTR OR SPI_CS_INTD))]"
    unfolding C_def pump_finish_def sB
    by (simp_all add: complete_def count_reads_def pull_bytes_def bcm2708_wr_def B)
  have w: "wait_for_completion_timeout 2 A = Some (True, C\<lparr> done_cnt := done_cnt C - 1 \<rparr>)"
    using A(3) i1 B(3) i2 by (rule wait_two_irqs) (simp add: C)
  have xs: "xfer_state (clk wide_device) (spi (message_of 1 wide_peer [plain_transfer]))
              plain_transfer = Some (Inr stp)"
    by (simp add: xfer_state_def message_of_def wide_peer_def plain_peer_def
        plain_transfer_def stp_def)
  have w': "wait_for_completion_timeout (irqs wide_device (waits wide_device) SPI_TIMEOUT_MS)
           ((arm wide_device plain_transfer stp)\<lparr> waits := Suc (waits wide_device) \<rparr>) =
         Some (True, C\<lparr> done_cnt := done_cnt C - 1 \<rparr>)"
    using w by (simp add: W A_def)
  have "bcm2708_process_transfer wide_device (message_of 1 wide_peer [plain_transfer])
          plain_transfer True =
        Some (None, bcm2708_wr (C\<lparr> done_cnt := done_cnt C - 1 \<rparr>) SPI_CS (cs stp),
              (message_of 1 wide_peer [plain_transfer])
                \<lparr> actual_length := actual_length (message_of 1 wide_peer [plain_transfer]) +
                     (x_len plain_transfer - len (C\<lparr> done_cnt := done_cnt C - 1 \<rparr>)) \<rparr>)"
    using process_transfer_completes[OF W(4) xs w', of True] by simp
  then show ?thesis
    by (simp add: bcm2708_wr_def C A stp_def plain_transfer_def message_of_def)
qed


lemma process_transfer_errors:
  assumes "bcm2708_process_transfer b m x l = Some (Some e, b', m')"
  shows "e = ShuttingDown \<or> e = FrequencyTooLow \<or> e = InvalidWordWidth \<or> e = Timeout"
proof (cases "stopping b")
  case True
  then show ?thesis using assms by (simp add: bcm2708_process_transfer_def)
next
  case False
  show ?thesis
  proof (cases "xfer_state (clk b) (spi m) x")
    case None
    then show ?thesis using assms False by (simp add: bcm2708_process_transfer_def)
  next
    case (Some s)
    show ?thesis
    proof (cases s)
      case (Inl e')
      then have "e = e'" using assms False Some by (simp add: bcm2708_process_transfer_def)
      moreover have "e' = FrequencyTooLow \<or> e' = InvalidWordWidth"
        using Some Inl by (auto simp: xfer_state_def split: if_splits dest: setup_state_Inl)
      ultimately show ?thesis by blast
    next
      case (Inr stp)
      then show ?thesis using assms False Some
        by (auto simp: bcm2708_process_transfer_def Let_def
            split: option.splits prod.splits bool.splits)
    qed
  qed
qed

text \<open>
  Claim C5, as amended.  In wide mode, a push whose count, the smaller of the request and
  the remaining length, is odd writes nothing and sets the remaining length to 0.  No
  protocol error comes of it: \<open>bcm2708_process_transfer\<close> fails only with
  \<open>ShuttingDown\<close>, \<open>FrequencyTooLow\<close>, \<open>InvalidWordWidth\<close> or \<open>Timeout\<close>.
\<close>

theorem wide_odd_push_aborts:
  assumes "0 \<le>s len bs" and "0 \<le>s n" and "status_word bs 0 AND SPI_CS_LEN \<noteq> 0"
    and "odd (min (unat n) (unat (len bs)))"
  shows "bcm2708_wr_fifo bs n = Some ((count_reads SPI_CS 1 bs)\<lparr> len := 0 \<rparr>) \<and>
         (\<forall>b m x l e b' m'. bcm2708_process_transfer b m x l = Some (Some e, b', m') \<longrightarrow>
            e = ShuttingDown \<or> e = FrequencyTooLow \<or> e = InvalidWordWidth \<or> e = Timeout)"
proof -
  have "bcm2708_wr_fifo bs n = Some ((count_reads SPI_CS 1 bs)\<lparr> len := 0 \<rparr>)"
    using assms by (simp add: wr_fifo_pump pump_push_def Let_def)
  then show ?thesis using process_transfer_errors by blast
qed

text \<open>Claim C5: a push of up to 16 bytes in wide mode with 3 bytes remaining.\<close>

theorem wide_odd_push_aborts_witness:
  "0 \<le>s len (wide_device\<lparr> tx_buf := 4096, len := 3 \<rparr>) \<and> 0 \<le>s (16 :: s32) \<and>
   status_word (wide_device\<lparr> tx_buf := 4096, len := 3 \<rparr>) 0 AND SPI_CS_LEN \<noteq> 0 \<and>
   odd (min (unat (16 :: s32)) (unat (len (wide_device\<lparr> tx_buf := 4096, len := 3 \<rparr>)))) \<and>
   map_option (\<lambda>b. (wr_log b, len b, tx_buf b))
     (bcm2708_wr_fifo (wide_device\<lparr> tx_buf := 4096, len := 3 \<rparr>) 16) = Some ([], 0, 4096)"
  using wide_odd_push_aborts[of "wide_device\<lparr> tx_buf := 4096, len := 3 \<rparr>" 16]
  by (simp add: wide_device_def done_device_def idle_controller_def status_word_def
      count_reads_def cs_bits word_sle_eq)

end
